theory Spec2Isabelle
  imports Complex_Main "HOL-Library.Log_Nat" "HOL-Library.Product_Lexorder"
begin

section \<open>Python values used by \<open>scripts/income.py\<close>\<close>

text \<open>
  Python strings are modelled as \<open>string\<close>, one \<open>char\<close> per code point, so the model
  covers code points below 256. Python integers are unbounded: \<open>int\<close>. Every exception
  the script can raise is a value of \<open>error\<close>; a function that may raise returns
  \<open>error + 'a\<close>, with \<open>Inl\<close> the exception. Python raises \<open>ValueError\<close> from four
  places (\<open>zip(strict=True)\<close>, \<open>int(str)\<close>, the explicit \<open>raise ValueError(msg)\<close> of
  \<open>get_census_data\<close>, and \<open>tuple.index\<close>); they get one constructor each so that theorems
  can tell them apart.
\<close>

datatype error =
    ValueError_zip                \<comment> \<open>\<open>zip(header, row, strict=True)\<close>: lengths differ\<close>
  | ValueError_int string         \<comment> \<open>\<open>int(s)\<close>: invalid literal\<close>
  | ValueError_index string       \<comment> \<open>\<open>order.index(g)\<close>: not in tuple\<close>
  | ValueError_response           \<comment> \<open>\<open>raise ValueError("Invalid API response format ...")\<close>\<close>
  | KeyError string               \<comment> \<open>\<open>d[k]\<close>: missing key\<close>
  | ZeroDivisionError             \<comment> \<open>\<open>count / 0\<close>\<close>
  | OverflowError                 \<comment> \<open>\<open>count / total\<close> too large for a float\<close>
  | TypeError                     \<comment> \<open>\<open>len(x)\<close> of a value without length\<close>
  | KeyError_index                \<comment> \<open>\<open>data[0]\<close> on a JSON object (no key \<open>0\<close>)\<close>
  | IndexError                    \<comment> \<open>\<open>data[0]\<close> on an empty list or string\<close>
  | ConnectionError               \<comment> \<open>\<open>niquests.get\<close> got no response\<close>
  | HTTPError nat                 \<comment> \<open>\<open>raise_for_status()\<close>\<close>
  | JSONDecodeError               \<comment> \<open>\<open>response.json()\<close>: body is not JSON\<close>
  | OSError string                \<comment> \<open>file system: \<open>mkdir\<close> or \<open>write_text\<close> failed\<close>

subsection \<open>\<open>int(s)\<close> for a string\<close>

text \<open>
  \<open>int(s)\<close> strips white space at both ends, reads an optional sign, then decimal digits
  in which single underscores may separate digits. It raises \<open>ValueError\<close> otherwise, and
  also when there are more than 4300 digits (the interpreter's default limit). The
  white space it strips is tab, line feed, vertical tab, form feed, carriage return and
  space, and of the code points from 128 to 255 the two that are Unicode white space,
  \<open>0x85\<close> and \<open>0xA0\<close>; the separators \<open>0x1C\<close> to \<open>0x1F\<close> are not stripped.
\<close>

definition py_isspace :: "char \<Rightarrow> bool" where
  "py_isspace c \<longleftrightarrow>
     c \<in> set [CHR 0x09, CHR 0x0A, CHR 0x0B, CHR 0x0C, CHR 0x0D, CHR 0x20, CHR 0x85, CHR 0xA0]"

definition py_strip :: "string \<Rightarrow> string" where
  "py_strip s = rev (dropWhile py_isspace (rev (dropWhile py_isspace s)))"

definition digit_val :: "char \<Rightarrow> int option" where
  "digit_val c = map_of (zip ''0123456789'' [0, 1, 2, 3, 4, 5, 6, 7, 8, 9]) c"

definition is_digit :: "char \<Rightarrow> bool" where
  "is_digit c \<longleftrightarrow> digit_val c \<noteq> None"

fun double_underscore :: "string \<Rightarrow> bool" where
  "double_underscore (a # b # cs) =
     ((a = CHR ''_'' \<and> b = CHR ''_'') \<or> double_underscore (b # cs))"
| "double_underscore cs = False"

definition int_max_str_digits :: nat where
  "int_max_str_digits = 4300"

definition digits_ok :: "string \<Rightarrow> bool" where
  "digits_ok cs \<longleftrightarrow>
     cs \<noteq> [] \<and> (\<forall>c \<in> set cs. is_digit c \<or> c = CHR ''_'') \<and>
     hd cs \<noteq> CHR ''_'' \<and> last cs \<noteq> CHR ''_'' \<and> \<not> double_underscore cs \<and>
     length (filter is_digit cs) \<le> int_max_str_digits"

definition digits_value :: "string \<Rightarrow> int" where
  "digits_value cs = foldl (\<lambda>acc c. 10 * acc + the (digit_val c)) 0 (filter is_digit cs)"

definition py_int :: "string \<Rightarrow> int option" where
  "py_int s =
     (let t = py_strip s;
          neg = (t \<noteq> [] \<and> hd t = CHR ''-'');
          body = (if t \<noteq> [] \<and> (hd t = CHR ''-'' \<or> hd t = CHR ''+'') then tl t else t)
      in if digits_ok body
         then Some (if neg then - digits_value body else digits_value body)
         else None)"

subsection \<open>Floats\<close>

text \<open>
  A finite IEEE-754 double is its sign and the exact rational value of its magnitude
  (the sign is kept apart because Python has \<open>-0.0\<close>). Infinities and NaN never arise:
  \<open>int / int\<close> raises \<open>OverflowError\<close> instead of returning an infinity.
\<close>

record pyfloat =
  fneg :: bool
  fmag :: rat

definition fval :: "pyfloat \<Rightarrow> rat" where
  "fval f = (if fneg f then - fmag f else fmag f)"

text \<open>\<open>ilog2 x\<close> is \<open>\<lfloor>log\<^sub>2 x\<rfloor>\<close> for \<open>x > 0\<close>.\<close>

definition ilog2 :: "rat \<Rightarrow> int" where
  "ilog2 x =
     (let (p, q) = quotient_of x; k = bitlen p - bitlen q
      in if 2 powi k \<le> x then k else k - 1)"

definition round_half_even :: "rat \<Rightarrow> int" where
  "round_half_even x =
     (let f = \<lfloor>x\<rfloor>; d = x - of_int f
      in if d < 1 / 2 then f else if 1 / 2 < d then f + 1 else if even f then f else f + 1)"

text \<open>
  The double nearest to a rational \<open>x \<ge> 0\<close>, ties to even. A double has 53
  significant bits, so the doubles around \<open>x > 0\<close> are the multiples of
  \<open>2 powi quantum x\<close>; the least quantum is \<open>2\<^sup>-\<^sup>1\<^sup>0\<^sup>7\<^sup>4\<close> (subnormals). \<open>None\<close> when the
  rounded value reaches \<open>2\<^sup>1\<^sup>0\<^sup>2\<^sup>4\<close> (overflow).
\<close>

definition quantum :: "rat \<Rightarrow> int" where
  "quantum x = max (ilog2 x - 52) (- 1074)"

definition nearest_double :: "rat \<Rightarrow> rat option" where
  "nearest_double x =
     (if x = 0 then Some 0
      else let q = quantum x;
               y = of_int (round_half_even (x / 2 powi q)) * 2 powi q
           in if 2 ^ 1024 \<le> y then None else Some y)"

text \<open>
  The largest double, and the least magnitude that rounds beyond it (half a quantum
  above).
\<close>

definition DBL_MAX :: rat where
  "DBL_MAX = 2 ^ 1024 - 2 ^ 971"

definition overflow_threshold :: rat where
  "overflow_threshold = 2 ^ 1024 - 2 ^ 970"

text \<open>
  \<open>a / b\<close> on Python integers is the correctly rounded quotient; the sign of a zero
  result is the exclusive or of the operands' signs.
\<close>

definition py_truediv :: "int \<Rightarrow> int \<Rightarrow> error + pyfloat" where
  "py_truediv a b =
     (if b = 0 then Inl ZeroDivisionError
      else case nearest_double (\<bar>of_int a / of_int b\<bar>) of
             None \<Rightarrow> Inl OverflowError
           | Some m \<Rightarrow> Inr \<lparr>fneg = ((a < 0) \<noteq> (b < 0)), fmag = m\<rparr>)"

text \<open>
  \<open>round(x, n)\<close> for a float and \<open>n \<ge> 0\<close> digits: the exact value of \<open>x\<close> is rounded
  half-even to \<open>n\<close> decimals, and that decimal is converted to the nearest double.
\<close>

definition py_round :: "pyfloat \<Rightarrow> nat \<Rightarrow> error + pyfloat" where
  "py_round x n =
     (case nearest_double (of_int (round_half_even (fmag x * 10 ^ n)) / 10 ^ n) of
        None \<Rightarrow> Inl OverflowError
      | Some m \<Rightarrow> Inr \<lparr>fneg = fneg x, fmag = m\<rparr>)"

section \<open>The tables of the script\<close>

text \<open>\<open>IncomeGroup\<close>: the arguments of the \<open>Literal\<close>, in the order they are written.\<close>

definition IncomeGroup :: "string list" where
  "IncomeGroup =
     [''<10000'', ''10000 to 14999'', ''15000 to 24999'', ''25000 to 34999'',
      ''35000 to 49999'', ''75000 to 99999'', ''50000 to 74999'', ''100000 to 149999'',
      ''150000 to 199999'', ''200000+'']"

record CensusResponse =
  header :: "string list"
  data :: "string list list"

record StateIncome =
  name :: string
  region :: string
  id' :: int
  pct :: pyfloat
  total' :: int
  group :: string

text \<open>
  A value of \<open>INCOME_MAPPING\<close> is a string or a dictionary; the dictionary is a
  \<open>BaseIncomeGroup\<close> (the key \<open>group\<close> only) or an \<open>AggregatedIncomeGroup\<close> (also the
  key \<open>sum_vars\<close>). \<open>INCOME_MAPPING\<close> keeps its insertion order.
\<close>

datatype mapping_value =
    Str string
  | Dict string "string list option"   \<comment> \<open>\<open>group\<close>, and \<open>sum_vars\<close> when present\<close>

definition INCOME_MAPPING :: "(string \<times> mapping_value) list" where
  "INCOME_MAPPING =
     [(''B19001_001E'', Str ''total''),
      (''B19001_002E'', Dict ''<10000'' None),
      (''B19001_003E'', Dict ''10000 to 14999'' None),
      (''B19001_004E,B19001_005E'',
         Dict ''15000 to 24999'' (Some [''B19001_004E'', ''B19001_005E''])),
      (''B19001_006E,B19001_007E'',
         Dict ''25000 to 34999'' (Some [''B19001_006E'', ''B19001_007E''])),
      (''B19001_008E,B19001_009E,B19001_010E'',
         Dict ''35000 to 49999'' (Some [''B19001_008E'', ''B19001_009E'', ''B19001_010E''])),
      (''B19001_011E,B19001_012E'',
         Dict ''50000 to 74999'' (Some [''B19001_011E'', ''B19001_012E''])),
      (''B19001_013E'', Dict ''75000 to 99999'' None),
      (''B19001_014E,B19001_015E'',
         Dict ''100000 to 149999'' (Some [''B19001_014E'', ''B19001_015E''])),
      (''B19001_016E'', Dict ''150000 to 199999'' None),
      (''B19001_017E'', Dict ''200000+'' None)]"

definition REGION_MAPPING :: "(string \<times> string) list" where
  "REGION_MAPPING =
     [(''01'', ''south''), (''02'', ''west''), (''04'', ''west''), (''05'', ''south''),
      (''06'', ''west''), (''08'', ''west''), (''09'', ''northeast''), (''10'', ''south''),
      (''11'', ''south''), (''12'', ''south''), (''13'', ''south''), (''15'', ''west''),
      (''16'', ''west''), (''17'', ''midwest''), (''18'', ''midwest''), (''19'', ''midwest''),
      (''20'', ''midwest''), (''21'', ''south''), (''22'', ''south''), (''23'', ''northeast''),
      (''24'', ''south''), (''25'', ''northeast''), (''26'', ''midwest''), (''27'', ''midwest''),
      (''28'', ''south''), (''29'', ''midwest''), (''30'', ''west''), (''31'', ''midwest''),
      (''32'', ''west''), (''33'', ''northeast''), (''34'', ''northeast''), (''35'', ''west''),
      (''36'', ''northeast''), (''37'', ''south''), (''38'', ''midwest''), (''39'', ''midwest''),
      (''40'', ''south''), (''41'', ''west''), (''42'', ''northeast''), (''44'', ''northeast''),
      (''45'', ''south''), (''46'', ''midwest''), (''47'', ''south''), (''48'', ''south''),
      (''49'', ''west''), (''50'', ''northeast''), (''51'', ''south''), (''53'', ''west''),
      (''54'', ''south''), (''55'', ''midwest''), (''56'', ''west''), (''72'', ''other'')]"

section \<open>\<open>process_state_records\<close>\<close>

text \<open>
  \<open>dict(zip(header, row, strict=True))\<close>: \<open>zip\<close> raises when the lengths differ; in the
  dictionary a later pair replaces an earlier one with the same key.
\<close>

definition zip_strict :: "'a list \<Rightarrow> 'b list \<Rightarrow> error + ('a \<times> 'b) list" where
  "zip_strict xs ys = (if length xs = length ys then Inr (zip xs ys) else Inl ValueError_zip)"

definition dict :: "('k \<times> 'v) list \<Rightarrow> ('k \<rightharpoonup> 'v)" where
  "dict kvs = map_of (rev kvs)"

definition getitem :: "(string \<rightharpoonup> 'v) \<Rightarrow> string \<Rightarrow> error + 'v" where
  "getitem d k = (case d k of None \<Rightarrow> Inl (KeyError k) | Some v \<Rightarrow> Inr v)"

text \<open>\<open>int(state_data[k])\<close>: the lookup first, then the conversion.\<close>

definition int_item :: "(string \<rightharpoonup> string) \<Rightarrow> string \<Rightarrow> error + int" where
  "int_item d k =
     (case getitem d k of
        Inl e \<Rightarrow> Inl e
      | Inr s \<Rightarrow> (case py_int s of None \<Rightarrow> Inl (ValueError_int s) | Some n \<Rightarrow> Inr n))"

text \<open>\<open>sum(int(state_data[var]) for var in sum_vars)\<close>, the generator consumed in order.\<close>

fun sum_items :: "(string \<rightharpoonup> string) \<Rightarrow> string list \<Rightarrow> int \<Rightarrow> error + int" where
  "sum_items d [] acc = Inr acc"
| "sum_items d (v # vs) acc =
     (case int_item d v of Inl e \<Rightarrow> Inl e | Inr n \<Rightarrow> sum_items d vs (acc + n))"

text \<open>\<open>round(count / total, 3)\<close>.\<close>

definition pct_of :: "int \<Rightarrow> int \<Rightarrow> error + pyfloat" where
  "pct_of count tot =
     (case py_truediv count tot of Inl e \<Rightarrow> Inl e | Inr q \<Rightarrow> py_round q 3)"

text \<open>
  The keyword arguments of \<open>StateIncome(...)\<close> are evaluated in the order written:
  \<open>name\<close>, \<open>region\<close>, \<open>id\<close>, \<open>pct\<close>.
\<close>

definition make_record ::
  "(string \<rightharpoonup> string) \<Rightarrow> string \<Rightarrow> int \<Rightarrow> string \<Rightarrow> int \<Rightarrow> error + StateIncome" where
  "make_record state_data state_fips tot grp count =
     (case getitem state_data ''NAME'' of Inl e \<Rightarrow> Inl e | Inr nm \<Rightarrow>
      case getitem (map_of REGION_MAPPING) state_fips of Inl e \<Rightarrow> Inl e | Inr rg \<Rightarrow>
      case py_int state_fips of None \<Rightarrow> Inl (ValueError_int state_fips) | Some i \<Rightarrow>
      case pct_of count tot of Inl e \<Rightarrow> Inl e | Inr p \<Rightarrow>
        Inr \<lparr>name = nm, region = rg, id' = i, pct = p, total' = tot, group = grp\<rparr>)"

text \<open>
  \<open>count\<close>: the sum over \<open>sum_vars\<close> when the dictionary has that key, else the field
  named by the key of \<open>INCOME_MAPPING\<close>.
\<close>

definition count_of ::
  "(string \<rightharpoonup> string) \<Rightarrow> string \<Rightarrow> string list option \<Rightarrow> error + int" where
  "count_of state_data code_str sum_vars =
     (case sum_vars of
        Some vars \<Rightarrow> sum_items state_data vars 0
      | None \<Rightarrow> int_item state_data code_str)"

text \<open>The body of \<open>for code_str, mapping in INCOME_MAPPING.items()\<close> for one item.\<close>

fun mapping_records ::
  "(string \<rightharpoonup> string) \<Rightarrow> string \<Rightarrow> int \<Rightarrow> string \<times> mapping_value
     \<Rightarrow> error + StateIncome list" where
  "mapping_records state_data state_fips tot (code_str, Str s) = Inr []"
| "mapping_records state_data state_fips tot (code_str, Dict grp sum_vars) =
     (case count_of state_data code_str sum_vars of Inl e \<Rightarrow> Inl e | Inr count \<Rightarrow>
      case make_record state_data state_fips tot grp count of
        Inl e \<Rightarrow> Inl e | Inr r \<Rightarrow> Inr [r])"

fun income_records ::
  "(string \<rightharpoonup> string) \<Rightarrow> string \<Rightarrow> int \<Rightarrow> (string \<times> mapping_value) list
     \<Rightarrow> error + StateIncome list" where
  "income_records state_data state_fips tot [] = Inr []"
| "income_records state_data state_fips tot (item # items) =
     (case mapping_records state_data state_fips tot item of Inl e \<Rightarrow> Inl e | Inr rs \<Rightarrow>
      case income_records state_data state_fips tot items of
        Inl e \<Rightarrow> Inl e | Inr rs' \<Rightarrow> Inr (rs @ rs'))"

text \<open>
  \<open>state_fips\<close> of a row: \<open>dict(zip(header, row, strict=True))["state"]\<close>, the first
  two statements of the loop body.
\<close>

definition state_fips_of :: "string list \<Rightarrow> string list \<Rightarrow> error + string" where
  "state_fips_of hdr row =
     (case zip_strict hdr row of Inl e \<Rightarrow> Inl e | Inr kvs \<Rightarrow> getitem (dict kvs) ''state'')"

text \<open>The body of \<open>for row in census_data["data"]\<close>: the records one row appends.\<close>

definition process_row :: "string list \<Rightarrow> string list \<Rightarrow> error + StateIncome list" where
  "process_row hdr row =
     (case zip_strict hdr row of Inl e \<Rightarrow> Inl e | Inr kvs \<Rightarrow>
      let state_data = dict kvs in
      case getitem state_data ''state'' of Inl e \<Rightarrow> Inl e | Inr state_fips \<Rightarrow>
      if map_of REGION_MAPPING state_fips = None then Inr []
      else case int_item state_data ''B19001_001E'' of Inl e \<Rightarrow> Inl e | Inr tot \<Rightarrow>
           income_records state_data state_fips tot INCOME_MAPPING)"

fun process_rows :: "string list \<Rightarrow> string list list \<Rightarrow> error + StateIncome list" where
  "process_rows hdr [] = Inr []"
| "process_rows hdr (row # rows) =
     (case process_row hdr row of Inl e \<Rightarrow> Inl e | Inr rs \<Rightarrow>
      case process_rows hdr rows of Inl e \<Rightarrow> Inl e | Inr rs' \<Rightarrow> Inr (rs @ rs'))"

text \<open>\<open>order.index(x)\<close>: the first position of \<open>x\<close>, \<open>ValueError\<close> when absent.\<close>

fun index_of :: "'a list \<Rightarrow> 'a \<Rightarrow> nat option" where
  "index_of [] x = None"
| "index_of (y # ys) x = (if y = x then Some 0 else map_option Suc (index_of ys x))"

definition by_state_income_group :: "string list \<Rightarrow> StateIncome \<Rightarrow> error + int \<times> nat" where
  "by_state_income_group order record =
     (case index_of order (group record) of
        None \<Rightarrow> Inl (ValueError_index (group record))
      | Some i \<Rightarrow> Inr (id' record, i))"

text \<open>
  \<open>sorted(records, key=f)\<close> computes every key first, in list order (the first key
  that raises aborts the sort), then sorts stably by key.
\<close>

fun map_err :: "('a \<Rightarrow> error + 'b) \<Rightarrow> 'a list \<Rightarrow> error + 'b list" where
  "map_err f [] = Inr []"
| "map_err f (x # xs) =
     (case f x of Inl e \<Rightarrow> Inl e | Inr y \<Rightarrow>
      case map_err f xs of Inl e \<Rightarrow> Inl e | Inr ys \<Rightarrow> Inr (y # ys))"

definition sorted_by :: "('a \<Rightarrow> error + 'k::linorder) \<Rightarrow> 'a list \<Rightarrow> error + 'a list" where
  "sorted_by f xs =
     (case map_err f xs of
        Inl e \<Rightarrow> Inl e
      | Inr ks \<Rightarrow> Inr (map snd (sort_key fst (zip ks xs))))"

definition process_state_records :: "CensusResponse \<Rightarrow> error + StateIncome list" where
  "process_state_records census_data =
     (case process_rows (header census_data) (data census_data) of
        Inl e \<Rightarrow> Inl e
      | Inr records \<Rightarrow> sorted_by (by_state_income_group IncomeGroup) records)"

section \<open>\<open>get_census_data\<close>\<close>

text \<open>
  What \<open>niquests.get(URL_QUERY)\<close> hands back is an input of the model: either no
  response at all (the call raises), or a status code with the body as \<open>response.json()\<close>
  parses it (\<open>None\<close>: the body is not JSON). The parsed body is any JSON value with
  finite numbers; the entries of an array are arrays of strings, which is what
  \<open>CensusResponse\<close> declares and the API sends. Of a JSON object only its keys matter
  here.
\<close>

datatype json_body =
    JNull
  | JBool bool
  | JInt int
  | JFloat pyfloat
  | JStr string
  | JArr "string list list"
  | JObj "string list"

datatype http_result =
    NoResponse
  | Response nat "json_body option"

text \<open>\<open>raise_for_status()\<close> raises for the client and server error codes, 400 to 599.\<close>

definition raise_for_status :: "nat \<Rightarrow> error + unit" where
  "raise_for_status status_code =
     (if 400 \<le> status_code \<and> status_code < 600 then Inl (HTTPError status_code) else Inr ())"

text \<open>\<open>not data\<close>: Python's truth value of a JSON value, negated.\<close>

fun py_not :: "json_body \<Rightarrow> bool" where
  "py_not JNull = True"
| "py_not (JBool b) = (\<not> b)"
| "py_not (JInt n) = (n = 0)"
| "py_not (JFloat f) = (fmag f = 0)"
| "py_not (JStr s) = (s = [])"
| "py_not (JArr xs) = (xs = [])"
| "py_not (JObj ks) = (ks = [])"

fun py_len :: "json_body \<Rightarrow> error + nat" where
  "py_len (JStr s) = Inr (length s)"
| "py_len (JArr xs) = Inr (length xs)"
| "py_len (JObj ks) = Inr (length (remdups ks))"
| "py_len v = Inl TypeError"

text \<open>
  \<open>CensusResponse(header=data[0], data=data[1:])\<close> checks no types. On a string,
  \<open>data[0]\<close> and the items of \<open>data[1:]\<close> are one-character strings, and iterating
  such a string yields itself once: to \<open>zip\<close> and \<open>for\<close> it is the list holding it.
  On an object \<open>data[0]\<close> raises, as no key of a JSON object is the integer \<open>0\<close>; on
  a number, a boolean or \<open>null\<close> it raises \<open>TypeError\<close>.
\<close>

fun census_response :: "json_body \<Rightarrow> error + CensusResponse" where
  "census_response (JArr (x # xs)) = Inr \<lparr>header = x, data = xs\<rparr>"
| "census_response (JArr []) = Inl IndexError"
| "census_response (JStr (c # cs)) = Inr \<lparr>header = [[c]], data = map (\<lambda>c. [[c]]) cs\<rparr>"
| "census_response (JStr []) = Inl IndexError"
| "census_response (JObj ks) = Inl KeyError_index"
| "census_response v = Inl TypeError"

definition get_census_data :: "http_result \<Rightarrow> error + CensusResponse" where
  "get_census_data http =
     (case http of
        NoResponse \<Rightarrow> Inl ConnectionError
      | Response status_code body \<Rightarrow>
          (case raise_for_status status_code of Inl e \<Rightarrow> Inl e | Inr u \<Rightarrow>
           case body of None \<Rightarrow> Inl JSONDecodeError | Some json \<Rightarrow>
           if py_not json then Inl ValueError_response
           else case py_len json of Inl e \<Rightarrow> Inl e | Inr n \<Rightarrow>
                if n < 2 then Inl ValueError_response else census_response json))"

section \<open>\<open>write_json\<close>\<close>

subsection \<open>\<open>json.dumps(data, indent=2)\<close>\<close>

definition hex_digit :: "nat \<Rightarrow> char" where
  "hex_digit n = ''0123456789abcdef'' ! (n mod 16)"

text \<open>
  With \<open>ensure_ascii\<close> (the default) every character outside \<open>' '..'~'\<close> is escaped,
  as are the quote and the backslash.
\<close>

definition escape_char :: "char \<Rightarrow> string" where
  "escape_char c =
     (if c = CHR 0x22 then [CHR 0x5C, CHR 0x22]
      else if c = CHR 0x5C then [CHR 0x5C, CHR 0x5C]
      else if c = CHR 0x0A then [CHR 0x5C, CHR ''n'']
      else if c = CHR 0x0D then [CHR 0x5C, CHR ''r'']
      else if c = CHR 0x09 then [CHR 0x5C, CHR ''t'']
      else if c = CHR 0x08 then [CHR 0x5C, CHR ''b'']
      else if c = CHR 0x0C then [CHR 0x5C, CHR ''f'']
      else if of_char c < (32 :: nat) \<or> (126 :: nat) < of_char c
        then [CHR 0x5C, CHR ''u'', CHR ''0'', CHR ''0'',
              hex_digit (of_char c div 16), hex_digit (of_char c)]
      else [c])"

definition encode_str :: "string \<Rightarrow> string" where
  "encode_str s = [CHR 0x22] @ concat (map escape_char s) @ [CHR 0x22]"

fun nat_repr :: "nat \<Rightarrow> string" where
  "nat_repr n =
     (if n < 10 then [''0123456789'' ! n]
      else nat_repr (n div 10) @ [''0123456789'' ! (n mod 10)])"

definition int_repr :: "int \<Rightarrow> string" where
  "int_repr i = (if i < 0 then CHR ''-'' # nat_repr (nat (- i)) else nat_repr (nat i))"

fun join :: "string \<Rightarrow> string list \<Rightarrow> string" where
  "join sep [] = []"
| "join sep [x] = x"
| "join sep (x # y # ys) = x @ sep @ join sep (y # ys)"

definition newline_indent :: "nat \<Rightarrow> string" where
  "newline_indent level = CHR 0x0A # replicate (2 * level) CHR '' ''"

text \<open>A dictionary (never empty here) and a list at nesting depth \<open>level\<close>.\<close>

definition dumps_dict :: "nat \<Rightarrow> (string \<times> string) list \<Rightarrow> string" where
  "dumps_dict level items =
     ''{'' @ newline_indent (level + 1)
       @ join ('','' @ newline_indent (level + 1))
           (map (\<lambda>(k, v). encode_str k @ '': '' @ v) items)
       @ newline_indent level @ ''}''"

definition dumps_list :: "nat \<Rightarrow> string list \<Rightarrow> string" where
  "dumps_list level items =
     (if items = [] then ''[]''
      else ''['' @ newline_indent (level + 1)
             @ join ('','' @ newline_indent (level + 1)) items
             @ newline_indent level @ '']'')"

text \<open>
  The keys of a \<open>StateIncome\<close> are in the order of the keyword arguments that built it.
  \<open>float.__repr__\<close> (the shortest decimal that reads back as the same double) is not
  modelled: it is the parameter \<open>float_repr\<close>.
\<close>

definition dumps_record :: "(pyfloat \<Rightarrow> string) \<Rightarrow> StateIncome \<Rightarrow> string" where
  "dumps_record float_repr r =
     dumps_dict 1
       [(''name'', encode_str (name r)),
        (''region'', encode_str (region r)),
        (''id'', int_repr (id' r)),
        (''pct'', float_repr (pct r)),
        (''total'', int_repr (total' r)),
        (''group'', encode_str (group r))]"

definition json_dumps :: "(pyfloat \<Rightarrow> string) \<Rightarrow> StateIncome list \<Rightarrow> string" where
  "json_dumps float_repr records = dumps_list 0 (map (dumps_record float_repr) records)"

subsection \<open>The file system\<close>

text \<open>
  A path is the list of its components below the root. The file system maps a path to
  a directory or to a file with its bytes; the root is a directory. Permissions and
  I/O failures are not modelled.
\<close>

datatype node = Dir | File string

type_synonym path = "string list"

type_synonym filesystem = "path \<rightharpoonup> node"

definition is_dir :: "filesystem \<Rightarrow> path \<Rightarrow> bool" where
  "is_dir fs p \<longleftrightarrow> p = [] \<or> fs p = Some Dir"

definition parent :: "path \<Rightarrow> path" where
  "parent p = butlast p"

text \<open>
  \<open>p.mkdir(parents=True, exist_ok=True)\<close>: every missing directory on the way to \<open>p\<close> is
  created and existing ones are kept. A regular file in the way is an error:
  \<open>NotADirectoryError\<close> when it is a proper ancestor of \<open>p\<close>, \<open>FileExistsError\<close> when it is
  \<open>p\<close> itself. \<open>mkdirs fs pre cs\<close> has \<open>pre\<close> in place and \<open>cs\<close> still to go.
\<close>

fun mkdirs :: "filesystem \<Rightarrow> path \<Rightarrow> path \<Rightarrow> error + filesystem" where
  "mkdirs fs pre [] = Inr fs"
| "mkdirs fs pre (c # cs) =
     (case fs (pre @ [c]) of
        None \<Rightarrow> mkdirs (fs(pre @ [c] \<mapsto> Dir)) (pre @ [c]) cs
      | Some Dir \<Rightarrow> mkdirs fs (pre @ [c]) cs
      | Some (File b) \<Rightarrow>
          Inl (OSError (if cs = [] then ''FileExistsError'' else ''NotADirectoryError'')))"

definition mkdir :: "filesystem \<Rightarrow> path \<Rightarrow> error + filesystem" where
  "mkdir fs p = mkdirs fs [] p"

text \<open>The UTF-8 bytes of a string of code points below 256.\<close>

definition utf8 :: "string \<Rightarrow> string" where
  "utf8 s =
     concat (map (\<lambda>c. if of_char c < (128 :: nat) then [c]
                       else [char_of (192 + of_char c div (64 :: nat)),
                             char_of (128 + of_char c mod (64 :: nat))]) s)"

text \<open>
  Opening a file resolves the directories on the way to it, from the root: a missing
  one is \<open>FileNotFoundError\<close>, a regular file in the place of one is
  \<open>NotADirectoryError\<close>. \<open>resolve fs pre cs\<close> has \<open>pre\<close> resolved and \<open>cs\<close> still to go.
\<close>

fun resolve :: "filesystem \<Rightarrow> path \<Rightarrow> path \<Rightarrow> error + unit" where
  "resolve fs pre [] = Inr ()"
| "resolve fs pre (c # cs) =
     (case fs (pre @ [c]) of
        None \<Rightarrow> Inl (OSError ''FileNotFoundError'')
      | Some (File b) \<Rightarrow> Inl (OSError ''NotADirectoryError'')
      | Some Dir \<Rightarrow> resolve fs (pre @ [c]) cs)"

text \<open>
  \<open>p.write_text(s, encoding="utf-8", newline="\n")\<close> opens \<open>p\<close> for writing, which
  needs its parent directory, creates no directory and replaces a file already there;
  with \<open>newline="\n"\<close> the text is written as it is. Opening raises
  \<open>IsADirectoryError\<close> when \<open>p\<close> is a directory.
\<close>

definition write_text :: "filesystem \<Rightarrow> path \<Rightarrow> string \<Rightarrow> error + filesystem" where
  "write_text fs p s =
     (case resolve fs [] (parent p) of
        Inl e \<Rightarrow> Inl e
      | Inr u \<Rightarrow>
          if is_dir fs p then Inl (OSError ''IsADirectoryError'')
          else Inr (fs(p \<mapsto> File (utf8 s))))"

text \<open>A text of ASCII characters only; its UTF-8 bytes are its characters.\<close>

definition ascii :: "string \<Rightarrow> bool" where
  "ascii s \<longleftrightarrow> list_all (\<lambda>c. of_char c < (128 :: nat)) s"

definition write_json ::
  "(pyfloat \<Rightarrow> string) \<Rightarrow> StateIncome list \<Rightarrow> path \<Rightarrow> filesystem \<Rightarrow> error + filesystem" where
  "write_json float_repr records output fs =
     write_text fs output (json_dumps float_repr records)"

section \<open>\<open>main\<close>\<close>

text \<open>
  \<open>REPO_ROOT\<close> is where the script is installed: a parameter. The world of a run is
  the file system and the lines printed so far.
\<close>

definition OUTPUT_DIR :: "path \<Rightarrow> path" where
  "OUTPUT_DIR REPO_ROOT = REPO_ROOT @ [''data'']"

definition OUTPUT_FILE :: "path \<Rightarrow> path" where
  "OUTPUT_FILE REPO_ROOT = OUTPUT_DIR REPO_ROOT @ [''income.json'']"

record world =
  files :: filesystem
  stdout :: "string list"

definition print :: "string \<Rightarrow> world \<Rightarrow> world" where
  "print line w = w\<lparr>stdout := stdout w @ [line]\<rparr>"

definition path_str :: "path \<Rightarrow> string" where
  "path_str p = (if p = [] then ''/'' else concat (map (\<lambda>c. ''/'' @ c) p))"

text \<open>A run returns the exception that ended it, if any, and the world it leaves.\<close>

definition main ::
  "path \<Rightarrow> (pyfloat \<Rightarrow> string) \<Rightarrow> http_result \<Rightarrow> world \<Rightarrow> error option \<times> world" where
  "main REPO_ROOT float_repr http w =
     (case get_census_data http of Inl e \<Rightarrow> (Some e, w) | Inr census_data \<Rightarrow>
      case process_state_records census_data of Inl e \<Rightarrow> (Some e, w) | Inr records \<Rightarrow>
      let w1 = print (''Found '' @ nat_repr (length records)
                        @ '' state-income group combinations'') w in
      case mkdir (files w1) (parent (OUTPUT_FILE REPO_ROOT)) of
        Inl e \<Rightarrow> (Some e, w1)
      | Inr fs1 \<Rightarrow>
          (case write_json float_repr records (OUTPUT_FILE REPO_ROOT) fs1 of
             Inl e \<Rightarrow> (Some e, w1\<lparr>files := fs1\<rparr>)
           | Inr fs2 \<Rightarrow>
               (None, print (''Data written to '' @ path_str (OUTPUT_FILE REPO_ROOT))
                        (w1\<lparr>files := fs2\<rparr>))))"

section \<open>Notions used to state the properties\<close>

text \<open>The items of \<open>INCOME_MAPPING\<close> that are dictionaries: the ones that emit a record.\<close>

fun dict_items ::
  "(string \<times> mapping_value) list \<Rightarrow> (string \<times> string \<times> string list option) list" where
  "dict_items [] = []"
| "dict_items ((code_str, Str s) # items) = dict_items items"
| "dict_items ((code_str, Dict grp sum_vars) # items) = (code_str, grp, sum_vars) # dict_items items"

text \<open>The ten counts of a row, in the order of \<open>INCOME_MAPPING\<close>.\<close>

definition bracket_counts :: "(string \<rightharpoonup> string) \<Rightarrow> (error + int) list" where
  "bracket_counts state_data =
     map (\<lambda>(code_str, grp, sum_vars). count_of state_data code_str sum_vars)
       (dict_items INCOME_MAPPING)"

text \<open>The fields the loop body converts with \<open>int\<close>: the total and the fields counted.\<close>

definition mapped_fields :: "string list" where
  "mapped_fields =
     ''B19001_001E'' #
     concat (map (\<lambda>(code_str, grp, sum_vars).
                    case sum_vars of Some vars \<Rightarrow> vars | None \<Rightarrow> [code_str])
               (dict_items INCOME_MAPPING))"

definition returns :: "error + 'a \<Rightarrow> bool" where
  "returns r = (case r of Inl e \<Rightarrow> False | Inr x \<Rightarrow> True)"

text \<open>
  A valid response: every row has the length of the header, every mapped field of
  every row is there and converts with \<open>int\<close>, and no total is zero.
\<close>

definition valid_row :: "string list \<Rightarrow> string list \<Rightarrow> bool" where
  "valid_row hdr row \<longleftrightarrow>
     length row = length hdr \<and>
     (\<forall>f \<in> set mapped_fields. returns (int_item (dict (zip hdr row)) f)) \<and>
     int_item (dict (zip hdr row)) ''B19001_001E'' \<noteq> Inr 0"

definition valid_response :: "CensusResponse \<Rightarrow> bool" where
  "valid_response c \<longleftrightarrow> (\<forall>row \<in> set (data c). valid_row (header c) row)"

text \<open>The rows that emit records: their state code is a key of \<open>REGION_MAPPING\<close>.\<close>

definition row_in_table :: "string list \<Rightarrow> string list \<Rightarrow> bool" where
  "row_in_table hdr row \<longleftrightarrow>
     (case state_fips_of hdr row of
        Inl e \<Rightarrow> False
      | Inr s \<Rightarrow> map_of REGION_MAPPING s \<noteq> None)"

text \<open>The rows of the state with the numeric id \<open>i\<close>.\<close>

definition row_has_id :: "string list \<Rightarrow> int \<Rightarrow> string list \<Rightarrow> bool" where
  "row_has_id hdr i row \<longleftrightarrow>
     (case state_fips_of hdr row of
        Inl e \<Rightarrow> False
      | Inr s \<Rightarrow> map_of REGION_MAPPING s \<noteq> None \<and> py_int s = Some i)"

text \<open>Every quotient \<open>count / total\<close> of the row is below the overflow threshold.\<close>

definition quotients_in_range :: "string list \<Rightarrow> string list \<Rightarrow> bool" where
  "quotients_in_range hdr row \<longleftrightarrow>
     (\<forall>c \<in> set (bracket_counts (dict (zip hdr row))).
        case (c, int_item (dict (zip hdr row)) ''B19001_001E'') of
          (Inr n, Inr t) \<Rightarrow> \<bar>of_int n / of_int t\<bar> < overflow_threshold
        | _ \<Rightarrow> True)"

text \<open>
  The ten counts of the row are non-negative integers that add up to its total, and
  the total is positive.
\<close>

definition count_value :: "error + int \<Rightarrow> int" where
  "count_value c = (case c of Inl e \<Rightarrow> 0 | Inr n \<Rightarrow> n)"

definition counts_partition_total :: "string list \<Rightarrow> string list \<Rightarrow> bool" where
  "counts_partition_total hdr row \<longleftrightarrow>
     (case int_item (dict (zip hdr row)) ''B19001_001E'' of
        Inl e \<Rightarrow> False
      | Inr t \<Rightarrow>
          0 < t \<and>
          (\<forall>c \<in> set (bracket_counts (dict (zip hdr row))).
             case c of Inl e \<Rightarrow> False | Inr n \<Rightarrow> 0 \<le> n) \<and>
          sum_list (map count_value (bracket_counts (dict (zip hdr row)))) = t)"

text \<open>The sort key as a total function (a group outside \<open>IncomeGroup\<close> would raise).\<close>

definition group_index :: "string \<Rightarrow> nat" where
  "group_index g = (case index_of IncomeGroup g of None \<Rightarrow> length IncomeGroup | Some i \<Rightarrow> i)"

definition record_key :: "StateIncome \<Rightarrow> int \<times> nat" where
  "record_key r = (id' r, group_index (group r))"

text \<open>The ten brackets from the lowest income to the highest.\<close>

definition brackets_low_to_high :: "string list" where
  "brackets_low_to_high =
     [''<10000'', ''10000 to 14999'', ''15000 to 24999'', ''25000 to 34999'',
      ''35000 to 49999'', ''50000 to 74999'', ''75000 to 99999'', ''100000 to 149999'',
      ''150000 to 199999'', ''200000+'']"

text \<open>
  The record \<open>r\<close> is the one the loop body builds for an item of \<open>INCOME_MAPPING\<close>
  that is a dictionary, field by field.
\<close>

definition emitted ::
  "(string \<rightharpoonup> string) \<Rightarrow> string \<Rightarrow> int \<Rightarrow> string \<times> string \<times> string list option
     \<Rightarrow> StateIncome \<Rightarrow> bool" where
  "emitted d fips tot item r \<longleftrightarrow>
     (case item of (code_str, grp, sum_vars) \<Rightarrow>
        group r = grp \<and> total' r = tot \<and> d ''NAME'' = Some (name r) \<and>
        map_of REGION_MAPPING fips = Some (region r) \<and> py_int fips = Some (id' r) \<and>
        (\<exists>c. count_of d code_str sum_vars = Inr c \<and> pct_of c tot = Inr (pct r)))"



section \<open>Example responses\<close>

text \<open>
  A stand-in for \<open>float.__repr__\<close> where an example needs one (it is the text of
  \<open>0.0\<close>), a record whose \<open>pct\<close> is \<open>0.0\<close>, and the file system that has the root
  directory and nothing else. A header with the columns the script reads, and rows for it: a state, a territory
  outside \<open>REGION_MAPPING\<close>, a row whose first count has 309 digits, a row whose first
  count exceeds its total, and a row with the total zero; then the row of the scenario
  with a second count of 312 digits, a row with the total zero and a first count that is
  not a number, and a row whose counts are thirds of its total.
\<close>

definition example_float_repr :: "pyfloat \<Rightarrow> string" where
  "example_float_repr f = ''0.0''"

definition example_record :: StateIncome where
  "example_record =
     \<lparr>name = ''Alabama'', region = ''south'', id' = 1, pct = \<lparr>fneg = False, fmag = 0\<rparr>,
      total' = 1000, group = ''10000 to 14999''\<rparr>"

definition empty_files :: filesystem where
  "empty_files = Map.empty"

definition example_header :: "string list" where
  "example_header =
     [''state'', ''NAME'', ''B19001_001E'', ''B19001_002E'', ''B19001_003E'', ''B19001_004E'',
      ''B19001_005E'', ''B19001_006E'', ''B19001_007E'', ''B19001_008E'', ''B19001_009E'',
      ''B19001_010E'', ''B19001_011E'', ''B19001_012E'', ''B19001_013E'', ''B19001_014E'',
      ''B19001_015E'', ''B19001_016E'', ''B19001_017E'']"

definition row_alabama :: "string list" where
  "row_alabama =
     [''01'', ''Alabama'', ''1000'', ''100'', ''0'', ''0'', ''0'', ''0'', ''0'', ''0'', ''0'', ''0'',
      ''0'', ''0'', ''0'', ''0'', ''0'', ''0'', ''900'']"

definition row_samoa :: "string list" where
  "row_samoa =
     [''60'', ''American Samoa'', ''1000'', ''100'', ''0'', ''0'', ''0'', ''0'', ''0'', ''0'', ''0'',
      ''0'', ''0'', ''0'', ''0'', ''0'', ''0'', ''0'', ''900'']"

definition huge_count :: string where
  "huge_count = CHR ''2'' # replicate 308 (CHR ''0'')"

definition row_overflow :: "string list" where
  "row_overflow =
     [''01'', ''Alabama'', ''1'', huge_count, ''0'', ''0'', ''0'', ''0'', ''0'', ''0'', ''0'', ''0'',
      ''0'', ''0'', ''0'', ''0'', ''0'', ''0'', ''0'']"

definition row_excess :: "string list" where
  "row_excess =
     [''01'', ''Alabama'', ''1'', ''2'', ''0'', ''0'', ''0'', ''0'', ''0'', ''0'', ''0'', ''0'',
      ''0'', ''0'', ''0'', ''0'', ''0'', ''0'', ''0'']"


definition huger_count :: string where
  "huger_count = CHR ''2'' # replicate 311 (CHR ''0'')"

definition row_scenario_overflow :: "string list" where
  "row_scenario_overflow =
     [''01'', ''Alabama'', ''1000'', ''100'', huger_count, ''0'', ''0'', ''0'', ''0'', ''0'', ''0'',
      ''0'', ''0'', ''0'', ''0'', ''0'', ''0'', ''0'', ''0'']"



section \<open>Rounding to a double\<close>

lemma rhe_err: "\<bar>of_int (round_half_even x) - x\<bar> \<le> 1 / 2"
proof -
  have "of_int \<lfloor>x\<rfloor> \<le> x" "x < of_int \<lfloor>x\<rfloor> + 1" by linarith+
  then show ?thesis
    unfolding round_half_even_def Let_def by (auto simp: abs_le_iff)
qed

lemma rhe_of_int: "round_half_even (of_int n) = n"
  by (simp add: round_half_even_def)

lemma rhe_bounds: "\<lfloor>x\<rfloor> \<le> round_half_even x \<and> round_half_even x \<le> \<lfloor>x\<rfloor> + 1"
  by (simp add: round_half_even_def Let_def)

lemma rhe_mono: assumes "x \<le> y" shows "round_half_even x \<le> round_half_even y"
proof (cases "\<lfloor>x\<rfloor> = \<lfloor>y\<rfloor>")
  case True
  then show ?thesis using assms by (auto simp: round_half_even_def Let_def)
next
  case False
  then have "\<lfloor>x\<rfloor> + 1 \<le> \<lfloor>y\<rfloor>" using floor_mono [OF assms] by linarith
  then show ?thesis using rhe_bounds [of x] rhe_bounds [of y] by linarith
qed

lemma bitlen_powi:
  assumes "0 < (p::int)"
  shows "(2::rat) powi (bitlen p - 1) \<le> of_int p \<and> of_int p < (2::rat) powi (bitlen p)"
proof -
  have b: "2 ^ nat (bitlen p - 1) \<le> p \<and> p < 2 ^ nat (bitlen p)"
    using bitlen_bounds [OF assms] .
  have ge: "1 \<le> bitlen p" using assms by (simp add: bitlen_alt_def)
  have "(of_int (2 ^ nat (bitlen p - 1)) :: rat) \<le> of_int p"
    using b by (simp only: of_int_le_iff)
  moreover have "(of_int p :: rat) < of_int (2 ^ nat (bitlen p))"
    using b by (simp only: of_int_less_iff)
  ultimately show ?thesis using ge by (simp add: power_int_def)
qed

lemma powi2_pos: "0 < (2::rat) powi k"
  by (simp add: power_int_def)

lemma powi2_add: "(2::rat) powi (a + b) = 2 powi a * 2 powi b"
  by (simp add: power_int_add)

lemma powi2_mono: "a \<le> b \<Longrightarrow> (2::rat) powi a \<le> 2 powi b"
  by (simp add: power_int_increasing) 

lemma powi2_less_iff: "(2::rat) powi a < 2 powi b \<longleftrightarrow> a < b"
proof
  assume l: "(2::rat) powi a < 2 powi b"
  show "a < b"
  proof (rule ccontr)
    assume "\<not> a < b"
    then have "(2::rat) powi b \<le> 2 powi a" by (simp add: power_int_increasing)
    with l show False by simp
  qed
next
  assume "a < b" then show "(2::rat) powi a < 2 powi b"
    by (simp add: power_int_strict_increasing)
qed

lemma ilog2_bounds:
  assumes "0 < x"
  shows "2 powi (ilog2 x) \<le> x \<and> x < 2 powi (ilog2 x + 1)"
proof -
  obtain p q where pq: "quotient_of x = (p, q)" by (cases "quotient_of x")
  have q: "0 < q" using pq by (rule quotient_of_denom_pos)
  have x: "x = of_int p / of_int q" using pq by (rule quotient_of_div)
  have p: "0 < p" using assms q x by (simp add: zero_less_divide_iff)
  let ?k = "bitlen p - bitlen q"
  note bp = bitlen_powi [OF p] and bq = bitlen_powi [OF q]
  have qpos: "(0::rat) < of_int q" using q by simp
  have up: "x < 2 powi (?k + 1)"
  proof -
    have "of_int p < (2::rat) powi (bitlen p)" using bp by simp
    also have "\<dots> = 2 powi (?k + 1) * 2 powi (bitlen q - 1)"
      by (simp add: powi2_add [symmetric])
    also have "\<dots> \<le> 2 powi (?k + 1) * of_int q"
      using bq powi2_pos [of "?k + 1"] by (simp add: mult_left_mono)
    finally show ?thesis using qpos by (simp add: x pos_divide_less_eq)
  qed
  have lo: "2 powi (?k - 1) \<le> x"
  proof -
    have "2 powi (?k - 1) * of_int q \<le> 2 powi (?k - 1) * (2::rat) powi (bitlen q)"
      using bq powi2_pos [of "?k - 1"] by (simp add: mult_left_mono)
    also have "\<dots> = 2 powi (bitlen p - 1)"
      by (simp add: powi2_add [symmetric])
    also have "\<dots> \<le> of_int p" using bp by simp
    finally show ?thesis using qpos by (simp add: x pos_le_divide_eq)
  qed
  show ?thesis
    using up lo pq by (auto simp: ilog2_def Let_def)
qed

lemma ilog2_unique:
  assumes "2 powi e \<le> x" "x < 2 powi (e + 1)"
  shows "ilog2 x = e"
proof -
  have pos: "0 < x" using powi2_pos [of e] assms(1) by linarith
  note b = ilog2_bounds [OF pos]
  have "(2::rat) powi e < 2 powi (ilog2 x + 1)" using assms(1) b by linarith
  then have 1: "e < ilog2 x + 1" by (simp only: powi2_less_iff)
  have "(2::rat) powi (ilog2 x) < 2 powi (e + 1)" using assms(2) b by linarith
  then have 2: "ilog2 x < e + 1" by (simp only: powi2_less_iff)
  show ?thesis using 1 2 by linarith
qed

lemma scaled_le:
  assumes "x \<le> of_int N * 2 powi q"
  shows "of_int (round_half_even (x / 2 powi q)) * (2::rat) powi q \<le> of_int N * 2 powi q"
proof -
  have "x / 2 powi q \<le> of_int N" using assms powi2_pos [of q] by (simp add: pos_divide_le_eq)
  then have "round_half_even (x / 2 powi q) \<le> N" using rhe_mono rhe_of_int by metis
  then show ?thesis using powi2_pos [of q] by simp
qed

lemma scaled_ge:
  assumes "of_int N * 2 powi q \<le> x"
  shows "of_int N * 2 powi q \<le> of_int (round_half_even (x / 2 powi q)) * (2::rat) powi q"
proof -
  have "of_int N \<le> x / 2 powi q" using assms powi2_pos [of q] by (simp add: pos_le_divide_eq)
  then have "N \<le> round_half_even (x / 2 powi q)" using rhe_mono rhe_of_int by metis
  then show ?thesis using powi2_pos [of q] by simp
qed

lemma powi2_split: "q \<le> k \<Longrightarrow> (2::rat) powi k = of_int (2 ^ nat (k - q)) * 2 powi q"
proof -
  assume "q \<le> k"
  then have "(2::rat) powi (k - q) = of_int (2 ^ nat (k - q))" by (simp add: power_int_def)
  moreover have "(2::rat) powi k = 2 powi (k - q) * 2 powi q" by (simp add: powi2_add [symmetric])
  ultimately show ?thesis by simp
qed

lemma scaled_le_pow:
  assumes "x \<le> 2 powi k" "q \<le> k"
  shows "of_int (round_half_even (x / 2 powi q)) * (2::rat) powi q \<le> 2 powi k"
  using scaled_le [of x "2 ^ nat (k - q)" q] assms powi2_split [OF assms(2)] by simp

lemma scaled_ge_pow:
  assumes "2 powi k \<le> x" "q \<le> k"
  shows "2 powi k \<le> of_int (round_half_even (x / 2 powi q)) * (2::rat) powi q"
  using scaled_ge [of "2 ^ nat (k - q)" q x] assms powi2_split [OF assms(2)] by simp

lemma scaled_err:
  "\<bar>of_int (round_half_even (x / 2 powi q)) * (2::rat) powi q - x\<bar> \<le> 2 powi q / 2"
proof -
  let ?s = "(2::rat) powi q"
  have s: "0 < ?s" by (rule powi2_pos)
  have "of_int (round_half_even (x / ?s)) * ?s - x = (of_int (round_half_even (x / ?s)) - x / ?s) * ?s"
    using s by (simp add: field_simps)
  then have "\<bar>of_int (round_half_even (x / ?s)) * ?s - x\<bar> = \<bar>of_int (round_half_even (x / ?s)) - x / ?s\<bar> * ?s"
    using s by (simp add: abs_mult)
  also have "\<dots> \<le> (1 / 2) * ?s"
    using rhe_err [of "x / ?s"] s by (intro mult_right_mono) auto
  finally show ?thesis by simp
qed

lemma scaled_nonneg:
  assumes "0 \<le> x" shows "0 \<le> of_int (round_half_even (x / 2 powi q)) * (2::rat) powi q"
  using scaled_ge [of 0 q x] assms by simp

lemma nearest_double_pos:
  "x \<noteq> 0 \<Longrightarrow> nearest_double x =
     (let y = of_int (round_half_even (x / 2 powi (quantum x))) * 2 powi (quantum x)
      in if 2 ^ 1024 \<le> y then None else Some y)"
  by (simp add: nearest_double_def Let_def)

lemma nearest_double_unit:
  assumes "0 \<le> x" "x \<le> 1"
  shows "\<exists>y. nearest_double x = Some y \<and> 0 \<le> y \<and> y \<le> 1 \<and> \<bar>y - x\<bar> \<le> 1 / 2 ^ 53"
proof (cases "x = 0")
  case True
  then show ?thesis by (simp add: nearest_double_def)
next
  case False
  then have pos: "0 < x" using assms by simp
  let ?q = "quantum x"
  let ?y = "of_int (round_half_even (x / 2 powi ?q)) * (2::rat) powi ?q"
  have "(2::rat) powi (ilog2 x) < 2 powi 1" using ilog2_bounds [OF pos] assms by simp
  then have e: "ilog2 x \<le> 0" by (simp only: powi2_less_iff)
  then have q: "?q \<le> - 52" by (simp add: quantum_def)
  have y0: "0 \<le> ?y" using assms by (intro scaled_nonneg)
  have y1: "?y \<le> 1" using scaled_le_pow [of x 0 ?q] assms q by simp
  have "(2::rat) powi ?q \<le> 2 powi (- 52)" using q by (intro powi2_mono)
  then have "(2::rat) powi ?q / 2 \<le> 1 / 2 ^ 53" by (simp add: power_int_minus_divide)
  then have err: "\<bar>?y - x\<bar> \<le> 1 / 2 ^ 53" using scaled_err [of x ?q] by linarith
  have "\<not> (2::rat) ^ 1024 \<le> ?y"
  proof -
    have "(1::rat) < 2 ^ 1024" by (rule one_less_power) auto
    then show ?thesis using y1 by linarith
  qed
  then have "nearest_double x = Some ?y" using False by (simp add: nearest_double_pos Let_def)
  then show ?thesis using y0 y1 err by blast
qed

lemma floor_rat_numeral [simp]:
  "\<lfloor>numeral a / numeral b :: rat\<rfloor> = numeral a div numeral b"
  by (metis floor_divide_of_int_eq of_int_numeral)

lemma floor_rat_one_numeral [simp]:
  "\<lfloor>1 / numeral b :: rat\<rfloor> = 1 div numeral b"
  by (metis floor_divide_of_int_eq of_int_1 of_int_numeral)

lemma ilog2_less: assumes "0 < x" "x < 2 powi k" shows "ilog2 x < k"
proof -
  have "(2::rat) powi (ilog2 x) < 2 powi k" using ilog2_bounds [OF assms(1)] assms(2) by linarith
  then show ?thesis by (simp only: powi2_less_iff)
qed

lemma ilog2_ge: assumes "0 < x" "2 powi k \<le> x" shows "k \<le> ilog2 x"
proof -
  have "(2::rat) powi k < 2 powi (ilog2 x + 1)" using ilog2_bounds [OF assms(1)] assms(2) by linarith
  then have "k < ilog2 x + 1" by (simp only: powi2_less_iff)
  then show ?thesis by simp
qed

lemma rhe_less: assumes "x < of_int N - 1 / 2" shows "round_half_even x \<le> N - 1"
proof -
  have "of_int (round_half_even x) - x \<le> 1 / 2" using rhe_err [of x] by (simp only: abs_le_iff)
  with assms have "of_int (round_half_even x) < (of_int N :: rat)" by linarith
  then have "round_half_even x < N" by (simp only: of_int_less_iff)
  then show ?thesis by simp
qed

lemma nearest_double_in_range:
  assumes "0 \<le> x" "x < overflow_threshold"
  shows "\<exists>y. nearest_double x = Some y \<and> 0 \<le> y \<and> y \<le> DBL_MAX"
proof (cases "x = 0")
  case True
  then show ?thesis by (simp add: nearest_double_def DBL_MAX_def)
next
  case False
  then have pos: "0 < x" using assms by simp
  let ?q = "quantum x"
  let ?y = "of_int (round_half_even (x / 2 powi ?q)) * (2::rat) powi ?q"
  have y0: "0 \<le> ?y" using assms by (intro scaled_nonneg)
  have "x < 2 powi 1024" using assms(2) by (simp add: overflow_threshold_def)
  then have e: "ilog2 x \<le> 1023" using ilog2_less [OF pos, of 1024] by simp
  have y: "?y \<le> DBL_MAX"
  proof (cases "ilog2 x = 1023")
    case True
    then have q: "?q = 971" by (simp add: quantum_def)
    have "x / 2 powi 971 < of_int (2 ^ 53) - 1 / 2"
      using assms(2) by (simp add: overflow_threshold_def pos_divide_less_eq)
    then have "round_half_even (x / 2 powi 971) \<le> 2 ^ 53 - 1" by (rule rhe_less)
    then have "(of_int (round_half_even (x / 2 powi 971)) :: rat) \<le> of_int (2 ^ 53 - 1)"
      by (simp only: of_int_le_iff)
    then have "of_int (round_half_even (x / 2 powi 971)) * (2::rat) powi 971 \<le> of_int (2 ^ 53 - 1) * 2 powi 971"
      by (intro mult_right_mono) auto
    then show ?thesis by (simp add: q DBL_MAX_def)
  next
    case False
    then have "ilog2 x + 1 \<le> 1023" using e by simp
    then have "(2::rat) powi (ilog2 x + 1) \<le> 2 powi 1023" by (rule powi2_mono)
    then have x: "x \<le> 2 powi 1023" using ilog2_bounds [OF pos] by linarith
    have "?q \<le> 1023" using e by (simp add: quantum_def)
    then have "?y \<le> 2 powi 1023" using x by (intro scaled_le_pow)
    then show ?thesis by (simp add: DBL_MAX_def)
  qed
  then have "\<not> 2 ^ 1024 \<le> ?y" by (simp add: DBL_MAX_def)
  then have "nearest_double x = Some ?y" using False by (simp add: nearest_double_pos Let_def)
  then show ?thesis using y0 y by blast
qed

lemma nearest_double_overflow:
  assumes "overflow_threshold \<le> x"
  shows "nearest_double x = None"
proof -
  have pos: "0 < x" using assms by (simp add: overflow_threshold_def)
  let ?q = "quantum x"
  let ?y = "of_int (round_half_even (x / 2 powi ?q)) * (2::rat) powi ?q"
  have "2 powi 1023 \<le> x" using assms by (simp add: overflow_threshold_def)
  then have e: "1023 \<le> ilog2 x" by (rule ilog2_ge [OF pos])
  have "2 ^ 1024 \<le> ?y"
  proof (cases "ilog2 x = 1023")
    case True
    then have q: "?q = 971" by (simp add: quantum_def)
    have h: "round_half_even (18014398509481983 / 2) = 2 ^ 53"
      by (simp add: round_half_even_def Let_def)
    have "(18014398509481983 / 2 :: rat) \<le> x / 2 powi 971"
      using assms by (simp add: overflow_threshold_def pos_le_divide_eq)
    then have "round_half_even (18014398509481983 / 2) \<le> round_half_even (x / 2 powi 971)"
      by (rule rhe_mono)
    then have "(of_int (2 ^ 53) :: rat) \<le> of_int (round_half_even (x / 2 powi 971))"
      unfolding h by (simp only: of_int_le_iff)
    then have "of_int (2 ^ 53) * (2::rat) powi 971 \<le> of_int (round_half_even (x / 2 powi 971)) * 2 powi 971"
      by (intro mult_right_mono) auto
    then show ?thesis by (simp add: q)
  next
    case False
    then have "1024 \<le> ilog2 x" using e by simp
    then have "(2::rat) powi 1024 \<le> 2 powi (ilog2 x)" by (rule powi2_mono)
    moreover have "?q \<le> ilog2 x" using e by (simp add: quantum_def)
    then have "2 powi (ilog2 x) \<le> ?y"
      using ilog2_bounds [OF pos] by (intro scaled_ge_pow) auto
    ultimately show ?thesis by simp
  qed
  then show ?thesis using pos by (simp add: nearest_double_pos Let_def)
qed

lemma nearest_double_eval:
  assumes "2 powi e \<le> x" "x < 2 powi (e + 1)"
    and "q = max (e - 52) (- 1074)"
    and "y = of_int (round_half_even (x / 2 powi q)) * 2 powi q"
    and "y < 2 ^ 1024"
  shows "nearest_double x = Some y"
proof -
  have "0 < x" using powi2_pos [of e] assms(1) by linarith
  then have "x \<noteq> 0" by simp
  moreover have "ilog2 x = e" using assms(1,2) by (rule ilog2_unique)
  ultimately show ?thesis using assms(3,4,5)
    by (simp add: nearest_double_pos quantum_def Let_def)
qed

lemma nearest_double_tenth:
  "nearest_double (1 / 10) = Some (3602879701896397 / 36028797018963968)"
  by (rule nearest_double_eval [where e = "- 4" and q = "- 56"])
     (simp_all add: power_int_minus round_half_even_def Let_def)

lemma py_truediv_in_range:
  assumes "b \<noteq> 0" "\<bar>of_int a / of_int b\<bar> < overflow_threshold"
  shows "\<exists>q. py_truediv a b = Inr q \<and> 0 \<le> fmag q \<and> fmag q \<le> DBL_MAX
           \<and> fneg q = ((a < 0) \<noteq> (b < 0))"
  using nearest_double_in_range [OF _ assms(2)] assms(1)
  by (auto simp: py_truediv_def)

lemma py_truediv_overflow:
  assumes "b \<noteq> 0" "overflow_threshold \<le> \<bar>of_int a / of_int b\<bar>"
  shows "py_truediv a b = Inl OverflowError"
  using nearest_double_overflow [OF assms(2)] assms(1) by (simp add: py_truediv_def)

lemma round_decimal_err:
  "\<bar>of_int (round_half_even (m * 10 ^ n)) / 10 ^ n - m\<bar> \<le> 1 / (2 * 10 ^ n)"
proof -
  let ?t = "(10::rat) ^ n"
  have t: "0 < ?t" by simp
  have "of_int (round_half_even (m * ?t)) / ?t - m = (of_int (round_half_even (m * ?t)) - m * ?t) / ?t"
    using t by (simp add: field_simps)
  then have "\<bar>of_int (round_half_even (m * ?t)) / ?t - m\<bar> = \<bar>of_int (round_half_even (m * ?t)) - m * ?t\<bar> / ?t"
    using t by (simp add: abs_divide del: of_int_diff)
  also have "\<dots> \<le> (1 / 2) / ?t"
    using rhe_err [of "m * ?t"] t by (intro divide_right_mono) auto
  finally show ?thesis by simp
qed

lemma round_decimal_nonneg:
  assumes "0 \<le> m" shows "0 \<le> of_int (round_half_even (m * 10 ^ n)) / (10::rat) ^ n"
proof -
  have "round_half_even (of_int 0) \<le> round_half_even (m * 10 ^ n)"
    using assms by (intro rhe_mono) simp
  then have "0 \<le> round_half_even (m * 10 ^ n)" by (simp only: rhe_of_int)
  then show ?thesis by simp
qed

lemma round_decimal_le_one:
  assumes "m \<le> 1" shows "of_int (round_half_even (m * 10 ^ n)) / (10::rat) ^ n \<le> 1"
proof -
  have "round_half_even (m * 10 ^ n) \<le> round_half_even (of_int (10 ^ n))"
    using assms by (intro rhe_mono) simp
  then have "round_half_even (m * 10 ^ n) \<le> 10 ^ n" by (simp only: rhe_of_int)
  then have "(of_int (round_half_even (m * 10 ^ n)) :: rat) \<le> of_int (10 ^ n)"
    by (simp only: of_int_le_iff)
  then show ?thesis by (simp add: pos_divide_le_eq)
qed

lemma py_round_total:
  assumes "0 \<le> fmag f" "fmag f \<le> DBL_MAX"
  shows "\<exists>p. py_round f n = Inr p \<and> fneg p = fneg f"
proof -
  let ?d = "of_int (round_half_even (fmag f * 10 ^ n)) / (10::rat) ^ n"
  have "(1::rat) \<le> 10 ^ n" by simp
  then have "1 / (2 * (10::rat) ^ n) \<le> 1 / 2" by (simp add: field_simps)
  then have "?d \<le> fmag f + 1 / 2" using round_decimal_err [of "fmag f" n] by linarith
  then have "?d < overflow_threshold"
    using assms(2) by (simp add: overflow_threshold_def DBL_MAX_def)
  moreover have "0 \<le> ?d" using assms(1) by (rule round_decimal_nonneg)
  ultimately obtain y where "nearest_double ?d = Some y"
    using nearest_double_in_range by blast
  then show ?thesis by (simp add: py_round_def)
qed

lemma pct_of_in_range:
  assumes "tot \<noteq> 0" "\<bar>of_int c / of_int tot\<bar> < overflow_threshold"
  shows "\<exists>p. pct_of c tot = Inr p"
proof -
  obtain q where q: "py_truediv c tot = Inr q" "0 \<le> fmag q" "fmag q \<le> DBL_MAX"
    using py_truediv_in_range [OF assms] by blast
  obtain p where "py_round q 3 = Inr p" using py_round_total [OF q(2,3)] by blast
  then show ?thesis using q(1) by (simp add: pct_of_def)
qed

lemma pct_of_overflow:
  assumes "tot \<noteq> 0" "overflow_threshold \<le> \<bar>of_int c / of_int tot\<bar>"
  shows "pct_of c tot = Inl OverflowError"
  using py_truediv_overflow [OF assms] by (simp add: pct_of_def)


lemma pct_of_unit:
  assumes "0 \<le> c" "c \<le> tot" "0 < tot"
  shows "\<exists>p. pct_of c tot = Inr p \<and> 0 \<le> fval p \<and> fval p \<le> 1
           \<and> \<bar>fval p - of_int c / of_int tot\<bar> \<le> 1 / 2000 + 1 / 2 ^ 52"
proof -
  let ?x = "of_int c / of_int tot :: rat"
  have x: "0 \<le> ?x" "?x \<le> 1" using assms by (simp_all add: pos_divide_le_eq)
  then have ax: "\<bar>?x\<bar> = ?x" by (simp only: abs_of_nonneg)
  obtain m where m: "nearest_double ?x = Some m" "0 \<le> m" "m \<le> 1" "\<bar>m - ?x\<bar> \<le> 1 / 2 ^ 53"
    using nearest_double_unit [OF x] by blast
  have neg: "\<not> ((c < 0) \<noteq> (tot < 0))" using assms by simp
  have q: "py_truediv c tot = Inr \<lparr>fneg = False, fmag = m\<rparr>"
    using assms m(1) neg ax by (simp add: py_truediv_def)
  let ?d = "of_int (round_half_even (m * 10 ^ 3)) / (10::rat) ^ 3"
  have d: "0 \<le> ?d" "?d \<le> 1"
    using round_decimal_nonneg [OF m(2), of 3] round_decimal_le_one [OF m(3), of 3] by blast+
  have de: "\<bar>?d - m\<bar> \<le> 1 / 2000" using round_decimal_err [of m 3] by simp
  obtain p where p: "nearest_double ?d = Some p" "0 \<le> p" "p \<le> 1" "\<bar>p - ?d\<bar> \<le> 1 / 2 ^ 53"
    using nearest_double_unit [OF d] by blast
  have r: "pct_of c tot = Inr \<lparr>fneg = False, fmag = p\<rparr>"
    using q p(1) by (simp add: pct_of_def py_round_def)
  have e1: "\<bar>m - ?x\<bar> \<le> 1 / 9007199254740992" using m(4) by simp
  have e2: "\<bar>p - ?d\<bar> \<le> 1 / 9007199254740992" using p(4) by simp
  have "\<bar>p - ?x\<bar> \<le> 1 / 2000 + 1 / 4503599627370496" using e1 de e2 by linarith
  then have "\<bar>p - ?x\<bar> \<le> 1 / 2000 + 1 / 2 ^ 52" by simp
  then show ?thesis using r p(2,3) by (simp add: fval_def)
qed

section \<open>Rows are processed in order, and the first exception ends the run\<close>

lemma process_rows_append:
  "process_rows hdr (xs @ ys) =
     (case process_rows hdr xs of Inl e \<Rightarrow> Inl e | Inr a \<Rightarrow>
        (case process_rows hdr ys of Inl e \<Rightarrow> Inl e | Inr b \<Rightarrow> Inr (a @ b)))"
  by (induction xs) (auto split: sum.splits)

lemma process_row_length_mismatch:
  "length row \<noteq> length hdr \<Longrightarrow> process_row hdr row = Inl ValueError_zip"
  by (auto simp: process_row_def zip_strict_def)

lemma process_rows_error_mem:
  "row \<in> set rows \<Longrightarrow> process_row hdr row = Inl e \<Longrightarrow> \<exists>e'. process_rows hdr rows = Inl e'"
  by (induction rows) (auto split: sum.splits)

lemma process_rows_prefix_ok:
  "\<forall>r \<in> set pre. \<exists>rs. process_row hdr r = Inr rs \<Longrightarrow> \<exists>rs. process_rows hdr pre = Inr rs"
  by (induction pre) (auto split: sum.splits)

lemma process_rows_first_error:
  assumes "\<forall>r \<in> set pre. \<exists>rs. process_row hdr r = Inr rs" and "process_row hdr row = Inl e"
  shows "process_rows hdr (pre @ row # post) = Inl e"
  using process_rows_prefix_ok [OF assms(1)] assms(2)
  by (auto simp: process_rows_append split: sum.splits)

lemma process_state_records_error:
  "process_rows hdr rows = Inl e
     \<Longrightarrow> process_state_records \<lparr>header = hdr, data = rows\<rparr> = Inl e"
  by (simp add: process_state_records_def)

lemma main_transform_error:
  "get_census_data http = Inr c \<Longrightarrow> process_state_records c = Inl e
     \<Longrightarrow> main rr fr http w = (Some e, w)"
  by (simp add: main_def)

lemma process_row_not_in_table:
  "state_fips_of hdr row = Inr s \<Longrightarrow> map_of REGION_MAPPING s = None
     \<Longrightarrow> process_row hdr row = Inr []"
  by (auto simp: process_row_def state_fips_of_def Let_def split: sum.splits)

lemma process_rows_skip:
  "process_row hdr row = Inr []
     \<Longrightarrow> process_rows hdr (pre @ row # post) = process_rows hdr (pre @ post)"
  by (auto simp: process_rows_append split: sum.splits)

lemma takeWhile_split_mismatch:
  assumes "row \<in> set rows" "length row \<noteq> length hdr"
  shows "\<exists>pre bad post. rows = pre @ bad # post
            \<and> pre = takeWhile (\<lambda>r. length r = length hdr) rows
            \<and> length bad \<noteq> length hdr"
proof -
  let ?P = "\<lambda>r. length r = length hdr"
  have "dropWhile ?P rows \<noteq> []"
    using assms by (auto simp: dropWhile_eq_Nil_conv)
  then obtain bad post where d: "dropWhile ?P rows = bad # post"
    by (cases "dropWhile ?P rows") auto
  then have "\<not> ?P bad"
    using hd_dropWhile [of ?P rows] by auto
  moreover have "rows = takeWhile ?P rows @ bad # post"
    using d takeWhile_dropWhile_id [of ?P rows] by simp
  ultimately show ?thesis by blast
qed

text \<open>
  C6. A response with a data row whose length is not the header's makes the transform
  raise: that row raises the \<open>ValueError\<close> of \<open>zip(strict=True)\<close>, so
  \<open>process_state_records\<close> returns an exception \<open>e\<close>, and \<open>main\<close> then ends with \<open>e\<close>
  and leaves the world (file system and output) as it found it. The exception is the
  one of \<open>zip\<close> whenever the rows before the first such row are processed without
  an exception of their own.
\<close>

theorem malformed_row_aborts:
  assumes "row \<in> set rows" and "length row \<noteq> length hdr"
  shows "process_row hdr row = Inl ValueError_zip \<and>
         (\<exists>e. process_state_records \<lparr>header = hdr, data = rows\<rparr> = Inl e \<and>
              (\<forall>rr fr http w. get_census_data http = Inr \<lparr>header = hdr, data = rows\<rparr>
                 \<longrightarrow> main rr fr http w = (Some e, w))) \<and>
         ((\<forall>r \<in> set (takeWhile (\<lambda>r. length r = length hdr) rows).
              \<exists>rs. process_row hdr r = Inr rs)
            \<longrightarrow> process_state_records \<lparr>header = hdr, data = rows\<rparr> = Inl ValueError_zip)"
proof (intro conjI impI)
  show row: "process_row hdr row = Inl ValueError_zip"
    using assms(2) by (rule process_row_length_mismatch)
  obtain e where e: "process_rows hdr rows = Inl e"
    using process_rows_error_mem [OF assms(1) row] by blast
  then have "process_state_records \<lparr>header = hdr, data = rows\<rparr> = Inl e"
    by (rule process_state_records_error)
  then show "\<exists>e. process_state_records \<lparr>header = hdr, data = rows\<rparr> = Inl e \<and>
              (\<forall>rr fr http w. get_census_data http = Inr \<lparr>header = hdr, data = rows\<rparr>
                 \<longrightarrow> main rr fr http w = (Some e, w))"
    by (auto simp: main_transform_error)
next
  assume ok: "\<forall>r \<in> set (takeWhile (\<lambda>r. length r = length hdr) rows).
                \<exists>rs. process_row hdr r = Inr rs"
  obtain pre bad post where s: "rows = pre @ bad # post"
      "pre = takeWhile (\<lambda>r. length r = length hdr) rows" "length bad \<noteq> length hdr"
    using takeWhile_split_mismatch [OF assms] by blast
  have "process_rows hdr (pre @ bad # post) = Inl ValueError_zip"
    using ok s(2) process_row_length_mismatch [OF s(3)]
    by (intro process_rows_first_error) auto
  then show "process_state_records \<lparr>header = hdr, data = rows\<rparr> = Inl ValueError_zip"
    using s(1) by (simp add: process_state_records_error)
qed

theorem malformed_row_aborts_witness:
  "[''60''] \<in> set [[''60'']] \<and> length [''60''] \<noteq> length [''state'', ''NAME''] \<and>
   process_state_records \<lparr>header = [''state'', ''NAME''], data = [[''60'']]\<rparr>
     = Inl ValueError_zip \<and>
   main [''repo''] (\<lambda>f. ''0.0'')
        (Response 200 (Some (JArr [[''state'', ''NAME''], [''60'']])))
        \<lparr>files = Map.empty, stdout = []\<rparr>
     = (Some ValueError_zip, \<lparr>files = Map.empty, stdout = []\<rparr>)"
proof -
  have g: "get_census_data (Response 200 (Some (JArr [[''state'', ''NAME''], [''60'']])))
             = Inr \<lparr>header = [''state'', ''NAME''], data = [[''60'']]\<rparr>"
    by (simp add: get_census_data_def raise_for_status_def)
  show ?thesis
    using malformed_row_aborts [of "[''60'']" "[[''60'']]" "[''state'', ''NAME'']"] g
    by auto
qed

text \<open>
  C10. A row whose length is not the header's raises the \<open>ValueError\<close> of
  \<open>zip(strict=True)\<close> whatever it holds: the exception comes from the first statement
  of the loop body, before the state code is read (the row has no \<open>state_fips\<close>) and
  so before the test against \<open>REGION_MAPPING\<close>. The run ends with that exception when
  the rows before it are processed without one.
\<close>

theorem length_check_precedes_region_check:
  assumes "length row \<noteq> length hdr"
  shows "process_row hdr row = Inl ValueError_zip \<and>
         state_fips_of hdr row = Inl ValueError_zip \<and>
         (\<forall>pre post. (\<forall>r \<in> set pre. \<exists>rs. process_row hdr r = Inr rs) \<longrightarrow>
            process_state_records \<lparr>header = hdr, data = pre @ row # post\<rparr>
              = Inl ValueError_zip)"
proof (intro conjI allI impI)
  show row: "process_row hdr row = Inl ValueError_zip"
    using assms by (rule process_row_length_mismatch)
  show "state_fips_of hdr row = Inl ValueError_zip"
    using assms by (auto simp: state_fips_of_def zip_strict_def)
  fix pre post
  assume "\<forall>r \<in> set pre. \<exists>rs. process_row hdr r = Inr rs"
  then show "process_state_records \<lparr>header = hdr, data = pre @ row # post\<rparr>
               = Inl ValueError_zip"
    using row by (simp add: process_state_records_error process_rows_first_error)
qed

text \<open>
  The witness: a row of the territory \<open>60\<close> (not a key of \<open>REGION_MAPPING\<close>) with one
  field too many, after a territory row of the right length.
\<close>

theorem length_check_precedes_region_check_witness:
  "length [''60'', ''American Samoa'', ''x''] \<noteq> length [''state'', ''NAME''] \<and>
   map_of REGION_MAPPING ''60'' = None \<and>
   process_row [''state'', ''NAME''] [''60'', ''American Samoa'', ''x''] = Inl ValueError_zip \<and>
   process_row [''state'', ''NAME''] [''60'', ''American Samoa''] = Inr [] \<and>
   process_state_records
     \<lparr>header = [''state'', ''NAME''],
      data = [[''60'', ''American Samoa''], [''60'', ''American Samoa'', ''x'']]\<rparr>
     = Inl ValueError_zip"
proof -
  have t: "map_of REGION_MAPPING ''60'' = None"
    by (simp add: REGION_MAPPING_def)
  have s: "state_fips_of [''state'', ''NAME''] [''60'', ''American Samoa''] = Inr ''60''"
    by (simp add: state_fips_of_def zip_strict_def dict_def getitem_def)
  have ok: "process_row [''state'', ''NAME''] [''60'', ''American Samoa''] = Inr []"
    using s t by (rule process_row_not_in_table)
  have len: "length [''60'', ''American Samoa'', ''x''] \<noteq> length [''state'', ''NAME'']"
    by simp
  note th = length_check_precedes_region_check [OF len]
  from th have
    "(\<forall>r \<in> set [[''60'', ''American Samoa'']]. \<exists>rs. process_row [''state'', ''NAME''] r = Inr rs)
       \<longrightarrow> process_state_records
             \<lparr>header = [''state'', ''NAME''],
              data = [[''60'', ''American Samoa'']] @ [''60'', ''American Samoa'', ''x''] # []\<rparr>
           = Inl ValueError_zip"
    by blast
  with th t ok show ?thesis
    by simp
qed

text \<open>
  C8. A row whose state code \<open>state_fips\<close> is not a key of \<open>REGION_MAPPING\<close> appends no
  record and raises nothing, and the run is the run without that row: the rows before
  and after it are processed as if it were not there.
\<close>

theorem row_outside_region_table_skipped:
  assumes "state_fips_of hdr row = Inr s" and "map_of REGION_MAPPING s = None"
  shows "process_row hdr row = Inr [] \<and>
         process_state_records \<lparr>header = hdr, data = pre @ row # post\<rparr>
           = process_state_records \<lparr>header = hdr, data = pre @ post\<rparr>"
  using process_row_not_in_table [OF assms]
  by (simp add: process_state_records_def process_rows_skip)

theorem row_outside_region_table_skipped_witness:
  "state_fips_of [''state'', ''NAME''] [''60'', ''American Samoa''] = Inr ''60'' \<and>
   map_of REGION_MAPPING ''60'' = None \<and>
   process_row [''state'', ''NAME''] [''60'', ''American Samoa''] = Inr [] \<and>
   process_state_records
     \<lparr>header = [''state'', ''NAME''], data = [] @ [''60'', ''American Samoa''] # []\<rparr>
     = process_state_records \<lparr>header = [''state'', ''NAME''], data = [] @ []\<rparr>"
proof -
  have t: "map_of REGION_MAPPING ''60'' = None"
    by (simp add: REGION_MAPPING_def)
  have s: "state_fips_of [''state'', ''NAME''] [''60'', ''American Samoa''] = Inr ''60''"
    by (simp add: state_fips_of_def zip_strict_def dict_def getitem_def)
  show ?thesis
    using row_outside_region_table_skipped [OF s t, of "[]" "[]"] s t by simp
qed

section \<open>The records of a row\<close>

lemma dict_items_INCOME_MAPPING:
  "dict_items INCOME_MAPPING =
     [(''B19001_002E'', ''<10000'', None),
      (''B19001_003E'', ''10000 to 14999'', None),
      (''B19001_004E,B19001_005E'', ''15000 to 24999'', Some [''B19001_004E'', ''B19001_005E'']),
      (''B19001_006E,B19001_007E'', ''25000 to 34999'', Some [''B19001_006E'', ''B19001_007E'']),
      (''B19001_008E,B19001_009E,B19001_010E'', ''35000 to 49999'',
         Some [''B19001_008E'', ''B19001_009E'', ''B19001_010E'']),
      (''B19001_011E,B19001_012E'', ''50000 to 74999'', Some [''B19001_011E'', ''B19001_012E'']),
      (''B19001_013E'', ''75000 to 99999'', None),
      (''B19001_014E,B19001_015E'', ''100000 to 149999'', Some [''B19001_014E'', ''B19001_015E'']),
      (''B19001_016E'', ''150000 to 199999'', None),
      (''B19001_017E'', ''200000+'', None)]"
  by (simp add: INCOME_MAPPING_def)

lemma make_record_Inr:
  "make_record d fips tot grp c = Inr r \<longleftrightarrow>
     (\<exists>nm rg i p. d ''NAME'' = Some nm \<and> map_of REGION_MAPPING fips = Some rg \<and>
        py_int fips = Some i \<and> pct_of c tot = Inr p \<and>
        r = \<lparr>name = nm, region = rg, id' = i, pct = p, total' = tot, group = grp\<rparr>)"
  by (auto simp: make_record_def getitem_def split: option.splits sum.splits)

lemma mapping_records_Str: "mapping_records d fips tot (code, Str s) = Inr []"
  by simp

lemma mapping_records_Dict_Inr:
  assumes "mapping_records d fips tot (code, Dict g sv) = Inr rs"
  shows "\<exists>r. rs = [r] \<and> emitted d fips tot (code, g, sv) r"
  using assms by (auto simp: emitted_def make_record_Inr split: sum.splits)

lemma mapping_records_Dict_ok:
  assumes "emitted d fips tot (code, g, sv) r"
  shows "\<exists>r'. mapping_records d fips tot (code, Dict g sv) = Inr [r']"
proof -
  obtain c where c: "count_of d code sv = Inr c" "pct_of c tot = Inr (pct r)"
    using assms by (auto simp: emitted_def)
  have "\<exists>r'. make_record d fips tot g c = Inr r'"
    using assms c(2) unfolding make_record_Inr by (auto simp: emitted_def)
  then show ?thesis using c(1) by auto
qed

lemma income_records_Inr:
  "income_records d fips tot items = Inr rs
     \<Longrightarrow> list_all2 (emitted d fips tot) (dict_items items) rs"
proof (induction items arbitrary: rs)
  case Nil
  then show ?case by auto
next
  case (Cons item items)
  obtain code m where item: "item = (code, m)" by (cases item)
  show ?case
  proof (cases m)
    case (Str s)
    then show ?thesis using Cons item by (auto split: sum.splits)
  next
    case (Dict g sv)
    from Cons.prems obtain r1 rs' where
      m: "mapping_records d fips tot (code, Dict g sv) = Inr r1"
      and i: "income_records d fips tot items = Inr rs'" and rs: "rs = r1 @ rs'"
      using item Dict by (auto simp del: mapping_records.simps split: sum.splits)
    obtain r where "r1 = [r]" "emitted d fips tot (code, g, sv) r"
      using mapping_records_Dict_Inr [OF m] by blast
    then show ?thesis using Cons.IH [OF i] rs item Dict by simp
  qed
qed

lemma income_records_ok:
  "\<forall>item \<in> set (dict_items items). \<exists>r. emitted d fips tot item r
     \<Longrightarrow> \<exists>rs. income_records d fips tot items = Inr rs"
proof (induction items)
  case Nil
  then show ?case by simp
next
  case (Cons item items)
  obtain code m where item: "item = (code, m)" by (cases item)
  show ?case
  proof (cases m)
    case (Str s)
    then show ?thesis using Cons item by (auto split: sum.splits)
  next
    case (Dict g sv)
    then obtain r where "emitted d fips tot (code, g, sv) r"
      using Cons.prems item by auto
    then obtain r' where "mapping_records d fips tot (code, Dict g sv) = Inr [r']"
      using mapping_records_Dict_ok by blast
    moreover obtain rs where "income_records d fips tot items = Inr rs"
      using Cons item Dict by auto
    ultimately show ?thesis using item Dict by (simp del: mapping_records.simps)
  qed
qed

lemma process_row_in_table:
  assumes "state_fips_of hdr row = Inr s" "map_of REGION_MAPPING s \<noteq> None"
  shows "process_row hdr row =
           (case int_item (dict (zip hdr row)) ''B19001_001E'' of
              Inl e \<Rightarrow> Inl e
            | Inr tot \<Rightarrow> income_records (dict (zip hdr row)) s tot INCOME_MAPPING)"
  using assms
  by (auto simp: process_row_def state_fips_of_def zip_strict_def Let_def split: sum.splits if_splits)

lemma state_fips_of_Inr:
  "state_fips_of hdr row = Inr s \<longleftrightarrow> length row = length hdr \<and> dict (zip hdr row) ''state'' = Some s"
  by (auto simp: state_fips_of_def zip_strict_def getitem_def split: option.splits)

lemma process_row_Inr:
  assumes "process_row hdr row = Inr rs"
  shows "\<exists>s. state_fips_of hdr row = Inr s \<and>
           (if map_of REGION_MAPPING s = None then rs = []
            else \<exists>tot. int_item (dict (zip hdr row)) ''B19001_001E'' = Inr tot \<and>
                   list_all2 (emitted (dict (zip hdr row)) s tot) (dict_items INCOME_MAPPING) rs)"
proof (cases "state_fips_of hdr row")
  case (Inl e)
  then show ?thesis using assms
    by (auto simp: process_row_def state_fips_of_def Let_def split: sum.splits)
next
  case (Inr s)
  show ?thesis
  proof (cases "map_of REGION_MAPPING s = None")
    case True
    then show ?thesis using assms Inr process_row_not_in_table [OF Inr True] by auto
  next
    case False
    then show ?thesis using assms Inr process_row_in_table [OF Inr False]
      by (auto dest: income_records_Inr split: sum.splits)
  qed
qed

lemma digit_not_special:
  "is_digit a \<Longrightarrow> \<not> py_isspace a \<and> a \<noteq> CHR ''-'' \<and> a \<noteq> CHR ''+'' \<and> a \<noteq> CHR ''_''"
  by (auto simp: is_digit_def digit_val_def py_isspace_def split: if_splits)

lemma py_int_two_digits:
  assumes "is_digit a" "is_digit b"
  shows "\<exists>i. py_int [a, b] = Some i"
  using assms digit_not_special [OF assms(1)] digit_not_special [OF assms(2)]
  by (simp add: py_int_def py_strip_def digits_ok_def int_max_str_digits_def)

lemma region_keys_two_digits:
  "list_all (\<lambda>(k, v). length k = 2 \<and> is_digit (k ! 0) \<and> is_digit (k ! 1)) REGION_MAPPING"
  by (simp add: REGION_MAPPING_def is_digit_def digit_val_def)

lemma region_keys_are_ints: "map_of REGION_MAPPING s = Some rg \<Longrightarrow> \<exists>i. py_int s = Some i"
proof -
  assume "map_of REGION_MAPPING s = Some rg"
  then have "(s, rg) \<in> set REGION_MAPPING" by (rule map_of_SomeD)
  then have s: "length s = 2 \<and> is_digit (s ! 0) \<and> is_digit (s ! 1)"
    using region_keys_two_digits by (auto simp: list_all_iff)
  then obtain a b where "s = [a, b]"
    by (cases s; cases "tl s") auto
  then show ?thesis using s py_int_two_digits by auto
qed

lemma index_of_None: "index_of xs x = None \<longleftrightarrow> x \<notin> set xs"
  by (induction xs) auto

lemma groups_in_IncomeGroup:
  "list_all2 (emitted d s tot) (dict_items INCOME_MAPPING) rs \<Longrightarrow> r \<in> set rs
     \<Longrightarrow> group r \<in> set IncomeGroup"
proof -
  assume a: "list_all2 (emitted d s tot) (dict_items INCOME_MAPPING) rs" and r: "r \<in> set rs"
  have g: "\<forall>item \<in> set (dict_items INCOME_MAPPING). fst (snd item) \<in> set IncomeGroup"
    unfolding dict_items_INCOME_MAPPING by (simp add: IncomeGroup_def)
  obtain i where i: "i < length rs" "r = rs ! i"
    using r by (auto simp: in_set_conv_nth)
  have len: "length (dict_items INCOME_MAPPING) = length rs"
    using a by (rule list_all2_lengthD)
  have "emitted d s tot (dict_items INCOME_MAPPING ! i) r"
    using a i len by (simp add: list_all2_nthD2)
  moreover have "dict_items INCOME_MAPPING ! i \<in> set (dict_items INCOME_MAPPING)"
    using i len by simp
  ultimately obtain item where "item \<in> set (dict_items INCOME_MAPPING)" "emitted d s tot item r"
    by blast
  then show ?thesis using g by (auto simp: emitted_def)
qed

lemma process_row_groups:
  "process_row hdr row = Inr rs \<Longrightarrow> r \<in> set rs \<Longrightarrow> group r \<in> set IncomeGroup"
  using process_row_Inr [of hdr row rs] groups_in_IncomeGroup
  by (auto split: if_splits)

lemma process_rows_groups:
  "process_rows hdr rows = Inr recs \<Longrightarrow> r \<in> set recs \<Longrightarrow> group r \<in> set IncomeGroup"
proof (induction rows arbitrary: recs)
  case Nil
  then show ?case by simp
next
  case (Cons row rows)
  then show ?case by (auto split: sum.splits dest: process_row_groups)
qed

lemma by_state_income_group_key:
  "group r \<in> set IncomeGroup \<Longrightarrow> by_state_income_group IncomeGroup r = Inr (record_key r)"
  by (auto simp: by_state_income_group_def record_key_def group_index_def index_of_None
           split: option.splits)

lemma map_err_total: "\<forall>x \<in> set xs. f x = Inr (g x) \<Longrightarrow> map_err f xs = Inr (map g xs)"
  by (induction xs) auto

lemma insort_key_decorated:
  "insort_key fst (k x, x) (map (\<lambda>x. (k x, x)) xs) = map (\<lambda>x. (k x, x)) (insort_key k x xs)"
  by (induction xs) auto

lemma sort_key_decorated:
  "sort_key fst (map (\<lambda>x. (k x, x)) xs) = map (\<lambda>x. (k x, x)) (sort_key k xs)"
  by (induction xs) (auto simp: insort_key_decorated)

lemma zip_map_self: "zip (map k xs) xs = map (\<lambda>x. (k x, x)) xs"
  by (induction xs) auto

lemma sorted_by_total:
  assumes "\<forall>x \<in> set xs. f x = Inr (k x)"
  shows "sorted_by f xs = Inr (sort_key k xs)"
  using map_err_total [OF assms]
  by (simp add: sorted_by_def zip_map_self sort_key_decorated comp_def)

lemma process_state_records_Inr:
  "process_state_records c = Inr out \<longleftrightarrow>
     (\<exists>recs. process_rows (header c) (data c) = Inr recs \<and> out = sort_key record_key recs)"
proof (cases "process_rows (header c) (data c)")
  case (Inl e)
  then show ?thesis by (simp add: process_state_records_def)
next
  case (Inr recs)
  then have "\<forall>r \<in> set recs. by_state_income_group IncomeGroup r = Inr (record_key r)"
    using process_rows_groups by_state_income_group_key by blast
  then have "sorted_by (by_state_income_group IncomeGroup) recs = Inr (sort_key record_key recs)"
    by (rule sorted_by_total)
  then show ?thesis using Inr by (auto simp: process_state_records_def)
qed

lemma dict_zip_dom:
  assumes "length hdr = length row" "k \<in> set hdr"
  shows "\<exists>v. dict (zip hdr row) k = Some v"
proof -
  have "k \<in> fst ` set (rev (zip hdr row))" using assms by (simp add: map_fst_zip flip: set_map)
  then show ?thesis unfolding dict_def by (metis map_of_eq_None_iff not_None_eq)
qed

section \<open>Valid responses\<close>

lemma returnsE: "returns r \<Longrightarrow> \<exists>x. r = Inr x"
  by (cases r) (auto simp: returns_def)

lemma sum_items_returns:
  "\<forall>v \<in> set vars. returns (int_item d v) \<Longrightarrow> returns (sum_items d vars acc)"
proof (induction vars arbitrary: acc)
  case Nil
  then show ?case by (simp add: returns_def)
next
  case (Cons v vars)
  then obtain n where "int_item d v = Inr n" using returnsE by fastforce
  then show ?case using Cons by simp
qed

lemma item_fields_mapped:
  assumes "(code, g, sv) \<in> set (dict_items INCOME_MAPPING)"
  shows "set (case sv of Some vars \<Rightarrow> vars | None \<Rightarrow> [code]) \<subseteq> set mapped_fields"
  using assms unfolding mapped_fields_def by fastforce

lemma count_of_returns:
  assumes "(code, g, sv) \<in> set (dict_items INCOME_MAPPING)"
    and "\<forall>f \<in> set mapped_fields. returns (int_item d f)"
  shows "returns (count_of d code sv)"
proof (cases sv)
  case None
  then have "code \<in> set mapped_fields" using item_fields_mapped [OF assms(1)] by simp
  then show ?thesis using assms(2) None by (simp add: count_of_def)
next
  case (Some vars)
  then have "set vars \<subseteq> set mapped_fields" using item_fields_mapped [OF assms(1)] by simp
  then have "\<forall>v \<in> set vars. returns (int_item d v)" using assms(2) by blast
  then show ?thesis using Some by (simp add: count_of_def sum_items_returns)
qed

lemma length_dict_items: "length (dict_items INCOME_MAPPING) = 10"
  by (simp add: dict_items_INCOME_MAPPING)

lemma row_in_table_iff:
  "state_fips_of hdr row = Inr s \<Longrightarrow> row_in_table hdr row \<longleftrightarrow> map_of REGION_MAPPING s \<noteq> None"
  by (simp add: row_in_table_def)

lemma valid_row_emits:
  assumes v: "valid_row hdr row" and st: "''state'' \<in> set hdr" and nm: "''NAME'' \<in> set hdr"
    and rg: "row_in_table hdr row \<longrightarrow> quotients_in_range hdr row"
  shows "\<exists>rs. process_row hdr row = Inr rs \<and> length rs = (if row_in_table hdr row then 10 else 0)"
proof -
  let ?d = "dict (zip hdr row)"
  have len: "length hdr = length row" using v by (simp add: valid_row_def)
  obtain s where s: "?d ''state'' = Some s" using dict_zip_dom [OF len st] by blast
  then have sf: "state_fips_of hdr row = Inr s" using len by (simp add: state_fips_of_Inr)
  show ?thesis
  proof (cases "map_of REGION_MAPPING s")
    case None
    then show ?thesis using process_row_not_in_table [OF sf None] row_in_table_iff [OF sf] by simp
  next
    case (Some region)
    then have tab: "row_in_table hdr row" using row_in_table_iff [OF sf] by simp
    have fields: "\<forall>f \<in> set mapped_fields. returns (int_item ?d f)"
      using v by (simp add: valid_row_def)
    then have "returns (int_item ?d ''B19001_001E'')" by (simp add: mapped_fields_def)
    then obtain t where t: "int_item ?d ''B19001_001E'' = Inr t" using returnsE by blast
    then have t0: "t \<noteq> 0" using v by (auto simp: valid_row_def)
    obtain n where n: "?d ''NAME'' = Some n" using dict_zip_dom [OF len nm] by blast
    obtain i where i: "py_int s = Some i" using region_keys_are_ints [OF Some] by blast
    have "\<exists>r. emitted ?d s t item r" if item: "item \<in> set (dict_items INCOME_MAPPING)" for item
    proof -
      obtain code g sv where it: "item = (code, g, sv)" by (cases item)
      obtain c where c: "count_of ?d code sv = Inr c"
        using count_of_returns [OF _ fields] item it returnsE by blast
      have "Inr c \<in> set (bracket_counts ?d)"
        using item it c unfolding bracket_counts_def by force
      then have "\<bar>of_int c / of_int t\<bar> < overflow_threshold"
        using rg tab t unfolding quotients_in_range_def by fastforce
      then obtain p where "pct_of c t = Inr p" using pct_of_in_range [OF t0] by blast
      then have "emitted ?d s t item
                   \<lparr>name = n, region = region, id' = i, pct = p, total' = t, group = g\<rparr>"
        using it c n Some i by (simp add: emitted_def)
      then show ?thesis by blast
    qed
    then obtain rs where rs: "income_records ?d s t INCOME_MAPPING = Inr rs"
      using income_records_ok by blast
    have "length rs = 10"
      using list_all2_lengthD [OF income_records_Inr [OF rs]] length_dict_items by simp
    moreover have "process_row hdr row = Inr rs"
      using process_row_in_table [OF sf] Some t rs by simp
    ultimately show ?thesis using tab by simp
  qed
qed

lemma process_rows_length:
  assumes "\<forall>row \<in> set rows. \<exists>rs. process_row hdr row = Inr rs
             \<and> length rs = (if row_in_table hdr row then 10 else 0)"
  shows "\<exists>recs. process_rows hdr rows = Inr recs
           \<and> length recs = 10 * length (filter (row_in_table hdr) rows)"
  using assms
proof (induction rows)
  case Nil
  then show ?case by simp
next
  case (Cons row rows)
  then obtain rs recs where "process_row hdr row = Inr rs"
    "length rs = (if row_in_table hdr row then 10 else 0)"
    "process_rows hdr rows = Inr recs" "length recs = 10 * length (filter (row_in_table hdr) rows)"
    by auto
  then show ?case by simp
qed

section \<open>Evaluating the example rows\<close>

lemma dict_distinct:
  assumes "distinct (map fst kvs)"
  shows "dict kvs = map_of kvs"
proof -
  have "distinct (map fst (rev kvs))" using assms by (simp flip: rev_map)
  then show ?thesis unfolding dict_def using assms by (simp add: map_of_inject_set)
qed

lemma example_dict:
  "dict (zip example_header [v0, v1, v2, v3, v4, v5, v6, v7, v8, v9, v10, v11, v12, v13, v14,
                              v15, v16, v17, v18]) =
   map_of [(''state'', v0), (''NAME'', v1), (''B19001_001E'', v2), (''B19001_002E'', v3),
           (''B19001_003E'', v4), (''B19001_004E'', v5), (''B19001_005E'', v6),
           (''B19001_006E'', v7), (''B19001_007E'', v8), (''B19001_008E'', v9),
           (''B19001_009E'', v10), (''B19001_010E'', v11), (''B19001_011E'', v12),
           (''B19001_012E'', v13), (''B19001_013E'', v14), (''B19001_014E'', v15),
           (''B19001_015E'', v16), (''B19001_016E'', v17), (''B19001_017E'', v18)]"
  by (rule trans [OF dict_distinct]) (simp_all add: example_header_def)

text \<open>
  When the name, the region and the id of a row are there, the records of the row are
  computed item by item, and only a count or a \<open>pct\<close> can raise.
\<close>

lemma income_records_map_err:
  assumes "d ''NAME'' = Some nm" "map_of REGION_MAPPING s = Some rg" "py_int s = Some i"
  shows "income_records d s tot items =
           map_err (\<lambda>(code_str, grp, sum_vars).
                      case count_of d code_str sum_vars of Inl e \<Rightarrow> Inl e | Inr c \<Rightarrow>
                      (case pct_of c tot of Inl e \<Rightarrow> Inl e | Inr p \<Rightarrow>
                         Inr \<lparr>name = nm, region = rg, id' = i, pct = p, total' = tot,
                              group = grp\<rparr>))
             (dict_items items)"
proof (induction items)
  case Nil
  then show ?case by simp
next
  case (Cons item items)
  obtain code m where item: "item = (code, m)" by (cases item)
  show ?case
  proof (cases m)
    case (Str x)
    then show ?thesis using Cons item by (simp split: sum.splits)
  next
    case (Dict g sv)
    then show ?thesis using Cons item assms
      by (simp add: make_record_def getitem_def split: sum.splits)
  qed
qed

lemma py_int_1000: "py_int ''1000'' = Some 1000"
  by (simp add: py_int_def py_strip_def py_isspace_def digits_ok_def is_digit_def digit_val_def
        digits_value_def int_max_str_digits_def)

lemma py_int_100: "py_int ''100'' = Some 100"
  by (simp add: py_int_def py_strip_def py_isspace_def digits_ok_def is_digit_def digit_val_def
        digits_value_def int_max_str_digits_def)

lemma py_int_900: "py_int ''900'' = Some 900"
  by (simp add: py_int_def py_strip_def py_isspace_def digits_ok_def is_digit_def digit_val_def
        digits_value_def int_max_str_digits_def)

lemma py_int_0: "py_int ''0'' = Some 0"
  by (simp add: py_int_def py_strip_def py_isspace_def digits_ok_def is_digit_def digit_val_def
        digits_value_def int_max_str_digits_def)

lemma py_int_1: "py_int ''1'' = Some 1"
  by (simp add: py_int_def py_strip_def py_isspace_def digits_ok_def is_digit_def digit_val_def
        digits_value_def int_max_str_digits_def)

lemma py_int_2: "py_int ''2'' = Some 2"
  by (simp add: py_int_def py_strip_def py_isspace_def digits_ok_def is_digit_def digit_val_def
        digits_value_def int_max_str_digits_def)

lemma py_int_01: "py_int ''01'' = Some 1"
  by (simp add: py_int_def py_strip_def py_isspace_def digits_ok_def is_digit_def digit_val_def
        digits_value_def int_max_str_digits_def)

lemma region_01: "map_of REGION_MAPPING ''01'' = Some ''south''"
  by (simp add: REGION_MAPPING_def)

lemma region_60: "map_of REGION_MAPPING ''60'' = None"
  by (simp add: REGION_MAPPING_def)

text \<open>The float literals \<open>0.0\<close>, \<open>0.1\<close>, \<open>0.9\<close> and \<open>2.0\<close>.\<close>

lemma pct_of_eval:
  assumes "0 \<le> c" "0 < t"
    and "nearest_double (of_int c / of_int t) = Some m"
    and "nearest_double (of_int (round_half_even (m * 1000)) / 1000) = Some p"
  shows "pct_of c t = Inr \<lparr>fneg = False, fmag = p\<rparr>"
proof -
  have "\<bar>of_int c / of_int t :: rat\<bar> = of_int c / of_int t" using assms(1,2) by simp
  then show ?thesis using assms by (simp add: pct_of_def py_truediv_def py_round_def)
qed

lemma nearest_double_0: "nearest_double 0 = Some 0"
  by (simp add: nearest_double_def)

lemma nearest_double_nine_tenths:
  "nearest_double (9 / 10) = Some (8106479329266893 / 9007199254740992)"
  by (rule nearest_double_eval [where e = "- 1" and q = "- 53"])
     (simp_all add: power_int_minus round_half_even_def Let_def)

lemma nearest_double_2: "nearest_double 2 = Some 2"
  by (rule nearest_double_eval [where e = 1 and q = "- 51"])
     (simp_all add: power_int_minus round_half_even_def Let_def)

lemma pct_of_100_1000:
  "pct_of 100 1000 = Inr \<lparr>fneg = False, fmag = 3602879701896397 / 36028797018963968\<rparr>"
  by (rule pct_of_eval [where m = "3602879701896397 / 36028797018963968"])
     (simp_all add: nearest_double_tenth round_half_even_def Let_def)

lemma pct_of_900_1000:
  "pct_of 900 1000 = Inr \<lparr>fneg = False, fmag = 8106479329266893 / 9007199254740992\<rparr>"
  by (rule pct_of_eval [where m = "8106479329266893 / 9007199254740992"])
     (simp_all add: nearest_double_nine_tenths round_half_even_def Let_def)

lemma pct_of_0: "0 < t \<Longrightarrow> pct_of 0 t = Inr \<lparr>fneg = False, fmag = 0\<rparr>"
  by (rule pct_of_eval [where m = 0]) (simp_all add: nearest_double_0 round_half_even_def)

lemma pct_of_2_1: "pct_of 2 1 = Inr \<lparr>fneg = False, fmag = 2\<rparr>"
  by (rule pct_of_eval [where m = 2])
     (simp_all add: nearest_double_2 round_half_even_def Let_def)

lemmas example_eval =
  dict_items_INCOME_MAPPING count_of_def int_item_def getitem_def
  py_int_0 py_int_1 py_int_2 py_int_100 py_int_900 py_int_1000 py_int_01

lemma process_row_example:
  assumes row: "row = [v0, v1, v2, v3, v4, v5, v6, v7, v8, v9, v10, v11, v12, v13, v14, v15,
                       v16, v17, v18]"
    and rg: "map_of REGION_MAPPING v0 = Some rg" and i: "py_int v0 = Some i"
    and t: "py_int v2 = Some tot"
  shows "state_fips_of example_header row = Inr v0"
    and "process_row example_header row =
           map_err (\<lambda>(code_str, grp, sum_vars).
                      case count_of (dict (zip example_header row)) code_str sum_vars of
                        Inl e \<Rightarrow> Inl e
                      | Inr c \<Rightarrow>
                          (case pct_of c tot of Inl e \<Rightarrow> Inl e | Inr p \<Rightarrow>
                             Inr \<lparr>name = v1, region = rg, id' = i, pct = p, total' = tot,
                                  group = grp\<rparr>))
             (dict_items INCOME_MAPPING)"
proof -
  let ?d = "dict (zip example_header row)"
  show s: "state_fips_of example_header row = Inr v0"
    unfolding row by (simp add: state_fips_of_Inr example_dict) (simp add: example_header_def)
  have n: "?d ''NAME'' = Some v1"
    unfolding row by (simp add: example_dict)
  have tt: "int_item ?d ''B19001_001E'' = Inr tot"
    unfolding row using t by (simp add: example_dict int_item_def getitem_def)
  have r: "map_of REGION_MAPPING v0 \<noteq> None" using rg by simp
  show "process_row example_header row =
           map_err (\<lambda>(code_str, grp, sum_vars).
                      case count_of (dict (zip example_header row)) code_str sum_vars of
                        Inl e \<Rightarrow> Inl e
                      | Inr c \<Rightarrow>
                          (case pct_of c tot of Inl e \<Rightarrow> Inl e | Inr p \<Rightarrow>
                             Inr \<lparr>name = v1, region = rg, id' = i, pct = p, total' = tot,
                                  group = grp\<rparr>))
             (dict_items INCOME_MAPPING)"
    unfolding process_row_in_table [OF s r] tt
    by (simp add: income_records_map_err [where d = ?d, OF n rg i])
qed

lemma process_row_alabama:
  "process_row example_header row_alabama =
     Inr (map (\<lambda>(g, p). \<lparr>name = ''Alabama'', region = ''south'', id' = 1,
                          pct = \<lparr>fneg = False, fmag = p\<rparr>, total' = 1000, group = g\<rparr>)
            [(''<10000'', 3602879701896397 / 36028797018963968),
             (''10000 to 14999'', 0), (''15000 to 24999'', 0), (''25000 to 34999'', 0),
             (''35000 to 49999'', 0), (''50000 to 74999'', 0), (''75000 to 99999'', 0),
             (''100000 to 149999'', 0), (''150000 to 199999'', 0),
             (''200000+'', 8106479329266893 / 9007199254740992)])"
  unfolding process_row_example(2) [OF row_alabama_def region_01 py_int_01 py_int_1000]
  unfolding row_alabama_def
  by (simp add: example_dict example_eval pct_of_100_1000 pct_of_900_1000 pct_of_0)

lemma no_double_underscore: "CHR ''_'' \<notin> set cs \<Longrightarrow> \<not> double_underscore cs"
  by (induction cs rule: double_underscore.induct) auto

lemma py_strip_no_space:
  assumes "cs \<noteq> []" "\<not> py_isspace (hd cs)" "\<not> py_isspace (last cs)"
  shows "py_strip cs = cs"
proof -
  have "dropWhile py_isspace cs = cs" using assms(1,2) by (cases cs) auto
  moreover have "dropWhile py_isspace (rev cs) = rev cs"
    using assms(1,3) by (cases "rev cs") (auto simp: last_rev [symmetric] simp del: last_rev)
  ultimately show ?thesis by (simp add: py_strip_def)
qed

lemma py_int_digits:
  assumes "cs \<noteq> []" "\<forall>c \<in> set cs. is_digit c" "length cs \<le> int_max_str_digits"
  shows "py_int cs = Some (digits_value cs)"
proof -
  have h: "is_digit (hd cs)" and l: "is_digit (last cs)" using assms(1,2) by auto
  have s: "py_strip cs = cs"
    using assms(1) digit_not_special [OF h] digit_not_special [OF l] by (intro py_strip_no_space) auto
  have u: "CHR ''_'' \<notin> set cs" using assms(2) digit_not_special by blast
  have f: "filter is_digit cs = cs" using assms(2) by simp
  have "digits_ok cs"
    using assms digit_not_special [OF h] digit_not_special [OF l] no_double_underscore [OF u] f
    by (simp add: digits_ok_def)
  then show ?thesis using s assms(1) digit_not_special [OF h] by (simp add: py_int_def)
qed

lemma foldl_zeros:
  "foldl (\<lambda>acc c. 10 * acc + the (digit_val c)) a (replicate n (CHR ''0'')) = a * 10 ^ n"
  by (induction n arbitrary: a) (auto simp: digit_val_def)

lemma py_int_huge_count: "py_int huge_count = Some (2 * 10 ^ 308)"
proof -
  have d: "is_digit (CHR ''2'')" "is_digit (CHR ''0'')" by (simp_all add: is_digit_def digit_val_def)
  have "py_int huge_count = Some (digits_value huge_count)"
    using d by (intro py_int_digits) (auto simp: huge_count_def int_max_str_digits_def)
  moreover have "digits_value huge_count = 2 * 10 ^ 308"
    using d by (simp add: digits_value_def huge_count_def foldl_zeros) (simp add: digit_val_def)
  ultimately show ?thesis by simp
qed

lemma pct_of_huge: "pct_of (2 * 10 ^ 308) 1 = Inl OverflowError"
  by (rule pct_of_overflow) (simp_all add: overflow_threshold_def)

lemma process_row_overflow: "process_row example_header row_overflow = Inl OverflowError"
  unfolding process_row_example(2) [OF row_overflow_def region_01 py_int_01 py_int_1]
  unfolding row_overflow_def
  by (simp add: example_dict example_eval py_int_huge_count pct_of_huge [simplified])

lemma mapped_fields_eq:
  "mapped_fields =
     [''B19001_001E'', ''B19001_002E'', ''B19001_003E'', ''B19001_004E'', ''B19001_005E'',
      ''B19001_006E'', ''B19001_007E'', ''B19001_008E'', ''B19001_009E'', ''B19001_010E'',
      ''B19001_011E'', ''B19001_012E'', ''B19001_013E'', ''B19001_014E'', ''B19001_015E'',
      ''B19001_016E'', ''B19001_017E'']"
  by (simp add: mapped_fields_def dict_items_INCOME_MAPPING)

lemma valid_row_overflow: "valid_row example_header row_overflow"
  unfolding valid_row_def mapped_fields_eq
  unfolding row_overflow_def
  by (simp add: example_dict example_eval returns_def py_int_huge_count)
     (simp add: example_header_def)

lemma valid_row_alabama: "valid_row example_header row_alabama"
  unfolding valid_row_def mapped_fields_eq
  unfolding row_alabama_def
  by (simp add: example_dict example_eval returns_def) (simp add: example_header_def)

lemma valid_row_samoa: "valid_row example_header row_samoa"
  unfolding valid_row_def mapped_fields_eq
  unfolding row_samoa_def
  by (simp add: example_dict example_eval returns_def) (simp add: example_header_def)

lemma state_fips_samoa: "state_fips_of example_header row_samoa = Inr ''60''"
  unfolding row_samoa_def
  by (simp add: state_fips_of_Inr example_dict) (simp add: example_header_def)

lemma row_in_table_alabama: "row_in_table example_header row_alabama"
  using process_row_example(1) [OF row_alabama_def region_01 py_int_01 py_int_1000]
  by (simp add: row_in_table_def region_01)

lemma row_in_table_overflow: "row_in_table example_header row_overflow"
  using process_row_example(1) [OF row_overflow_def region_01 py_int_01 py_int_1]
  by (simp add: row_in_table_def region_01)

lemma row_in_table_samoa: "\<not> row_in_table example_header row_samoa"
  by (simp add: row_in_table_def state_fips_samoa region_60)

lemma quotients_in_range_alabama: "quotients_in_range example_header row_alabama"
  unfolding quotients_in_range_def bracket_counts_def
  unfolding row_alabama_def
  by (simp add: example_dict example_eval overflow_threshold_def)

section \<open>The number of records\<close>

lemma process_rows_single: "process_rows hdr [row] = process_row hdr row"
  by (simp split: sum.splits)

lemma dict_zip_key: "dict (zip hdr row) k = Some v \<Longrightarrow> k \<in> set hdr"
  unfolding dict_def by (auto dest!: map_of_SomeD set_zip_leftD)

lemma valid_rows_return:
  assumes "\<forall>row \<in> set rows. valid_row hdr row"
    and "''state'' \<in> set hdr" and "''NAME'' \<in> set hdr"
    and "\<forall>row \<in> set rows. row_in_table hdr row \<longrightarrow> quotients_in_range hdr row"
  shows "\<exists>recs. process_rows hdr rows = Inr recs \<and>
           length recs = 10 * length (filter (row_in_table hdr) rows)"
proof -
  have "\<forall>row \<in> set rows. \<exists>rs. process_row hdr row = Inr rs
          \<and> length rs = (if row_in_table hdr row then 10 else 0)"
    using assms valid_row_emits by simp
  then show ?thesis by (rule process_rows_length)
qed

text \<open>
  C2 (as amended). For a valid response (every row as long as the header, every mapped
  field of every row converting with \<open>int\<close>, no total zero) whose header has the
  columns \<open>state\<close> and \<open>NAME\<close>, and in which every quotient \<open>count / total\<close> of a row
  with a state code in \<open>REGION_MAPPING\<close> is in magnitude below the overflow threshold
  \<open>2\<^sup>1\<^sup>0\<^sup>2\<^sup>4 - 2\<^sup>9\<^sup>7\<^sup>0\<close> of a double, \<open>process_state_records\<close> returns, and it
  returns exactly ten records for each data row whose state code is a key of
  \<open>REGION_MAPPING\<close>.
\<close>

theorem valid_response_record_count:
  assumes "valid_response c"
    and "''state'' \<in> set (header c)" and "''NAME'' \<in> set (header c)"
    and "\<forall>row \<in> set (data c). row_in_table (header c) row \<longrightarrow> quotients_in_range (header c) row"
  shows "\<exists>recs. process_state_records c = Inr recs \<and>
           length recs = 10 * length (filter (row_in_table (header c)) (data c))"
proof -
  obtain recs where "process_rows (header c) (data c) = Inr recs"
    "length recs = 10 * length (filter (row_in_table (header c)) (data c))"
    using valid_rows_return [of "data c" "header c"] assms by (auto simp: valid_response_def)
  then show ?thesis by (simp add: process_state_records_Inr)
qed

theorem valid_response_record_count_witness:
  "valid_response \<lparr>header = example_header, data = [row_alabama, row_samoa]\<rparr> \<and>
   ''state'' \<in> set example_header \<and> ''NAME'' \<in> set example_header \<and>
   quotients_in_range example_header row_alabama \<and>
   \<not> row_in_table example_header row_samoa \<and>
   (\<exists>recs. process_state_records \<lparr>header = example_header, data = [row_alabama, row_samoa]\<rparr>
             = Inr recs \<and> length recs = 10)"
proof -
  have v: "valid_response \<lparr>header = example_header, data = [row_alabama, row_samoa]\<rparr>"
    by (simp add: valid_response_def valid_row_alabama valid_row_samoa)
  have c: "''state'' \<in> set example_header" "''NAME'' \<in> set example_header"
    by (simp_all add: example_header_def)
  show ?thesis
    using valid_response_record_count
            [of "\<lparr>header = example_header, data = [row_alabama, row_samoa]\<rparr>"]
      v c quotients_in_range_alabama row_in_table_samoa row_in_table_alabama
    by simp
qed

text \<open>
  C2 as stated fails: the response below is valid in the sense of the claim, its one
  row is of state \<open>01\<close>, and \<open>process_state_records\<close> raises \<open>OverflowError\<close> instead
  of returning ten records, because the first count is \<open>2 \<cdot> 10\<^sup>3\<^sup>0\<^sup>8\<close> and the total is 1.
\<close>

theorem record_count_counterexample:
  "valid_response \<lparr>header = example_header, data = [row_overflow]\<rparr> \<and>
   length (filter (row_in_table example_header) [row_overflow]) = 1 \<and>
   process_state_records \<lparr>header = example_header, data = [row_overflow]\<rparr> = Inl OverflowError"
  by (simp add: valid_response_def valid_row_overflow row_in_table_overflow
        process_state_records_def process_row_overflow)

section \<open>A total of zero\<close>





section \<open>The records of one state\<close>

lemma emitted_groups:
  "list_all2 (emitted d s tot) items rs \<Longrightarrow> map group rs = map (fst \<circ> snd) items"
  by (induction rule: list_all2_induct) (auto simp: emitted_def)

lemma emitted_ids:
  "list_all2 (emitted d s tot) items rs \<Longrightarrow> r \<in> set rs \<Longrightarrow> py_int s = Some (id' r)"
  by (induction rule: list_all2_induct) (auto simp: emitted_def)

lemma process_row_record_id:
  assumes "process_row hdr row = Inr rs" "r \<in> set rs"
  shows "row_has_id hdr i row \<longleftrightarrow> id' r = i"
proof -
  obtain s where s: "state_fips_of hdr row = Inr s"
    and c: "if map_of REGION_MAPPING s = None then rs = []
            else \<exists>tot. int_item (dict (zip hdr row)) ''B19001_001E'' = Inr tot \<and>
                   list_all2 (emitted (dict (zip hdr row)) s tot) (dict_items INCOME_MAPPING) rs"
    using process_row_Inr [OF assms(1)] by blast
  have tab: "map_of REGION_MAPPING s \<noteq> None" using c assms(2) by (auto split: if_splits)
  then have "py_int s = Some (id' r)" using c assms(2) emitted_ids by (auto split: if_splits)
  then show ?thesis using s tab by (auto simp: row_has_id_def)
qed

lemma process_rows_Cons_Inr:
  "process_rows hdr (row # rows) = Inr recs \<longleftrightarrow>
     (\<exists>rs recs'. process_row hdr row = Inr rs \<and> process_rows hdr rows = Inr recs'
                  \<and> recs = rs @ recs')"
  by (auto split: sum.splits)

lemma filter_id_none:
  "process_rows hdr rows = Inr recs \<Longrightarrow> filter (row_has_id hdr i) rows = []
     \<Longrightarrow> filter (\<lambda>r. id' r = i) recs = []"
proof (induction rows arbitrary: recs)
  case Nil
  then show ?case by simp
next
  case (Cons row rows)
  obtain rs recs' where p: "process_row hdr row = Inr rs" "process_rows hdr rows = Inr recs'"
    "recs = rs @ recs'"
    using Cons.prems(1) unfolding process_rows_Cons_Inr by blast
  have n: "\<not> row_has_id hdr i row" "filter (row_has_id hdr i) rows = []"
    using Cons.prems(2) by (auto split: if_splits)
  have "filter (\<lambda>r. id' r = i) rs = []"
    using process_row_record_id [OF p(1)] n(1) by (auto simp: filter_empty_conv)
  then show ?case using Cons.IH [OF p(2) n(2)] p(3) by simp
qed

lemma filter_id_one:
  "process_rows hdr rows = Inr recs \<Longrightarrow> filter (row_has_id hdr i) rows = [row]
     \<Longrightarrow> \<exists>rs. process_row hdr row = Inr rs \<and> filter (\<lambda>r. id' r = i) recs = rs"
proof (induction rows arbitrary: recs)
  case Nil
  then show ?case by simp
next
  case (Cons row' rows)
  obtain rs recs' where p: "process_row hdr row' = Inr rs" "process_rows hdr rows = Inr recs'"
    "recs = rs @ recs'"
    using Cons.prems(1) unfolding process_rows_Cons_Inr by blast
  show ?case
  proof (cases "row_has_id hdr i row'")
    case True
    then have e: "row' = row" "filter (row_has_id hdr i) rows = []"
      using Cons.prems(2) by auto
    have "filter (\<lambda>r. id' r = i) rs = rs"
      using process_row_record_id [OF p(1)] True by (auto simp: filter_id_conv)
    then show ?thesis using filter_id_none [OF p(2) e(2)] p e(1) by simp
  next
    case False
    then have e: "filter (row_has_id hdr i) rows = [row]"
      using Cons.prems(2) by auto
    have "filter (\<lambda>r. id' r = i) rs = []"
      using process_row_record_id [OF p(1)] False by (auto simp: filter_empty_conv)
    then show ?thesis using Cons.IH [OF p(2) e] p(3) by simp
  qed
qed

lemma filter_has_id_in_table:
  "filter (row_has_id hdr i) rows = [row] \<Longrightarrow> row \<in> set rows \<and> row_has_id hdr i row"
proof -
  assume a: "filter (row_has_id hdr i) rows = [row]"
  have "row \<in> set (filter (row_has_id hdr i) rows)" unfolding a by simp
  then show ?thesis by simp
qed

lemma row_has_id_state:
  "row_has_id hdr i row \<Longrightarrow>
     \<exists>s. state_fips_of hdr row = Inr s \<and> map_of REGION_MAPPING s \<noteq> None \<and> py_int s = Some i"
  by (auto simp: row_has_id_def split: sum.splits)

text \<open>The records of a state that one row describes: the ten records of that row.\<close>

lemma one_row_records:
  assumes "process_rows hdr rows = Inr recs" "filter (row_has_id hdr i) rows = [row]"
  shows "\<exists>s tot. state_fips_of hdr row = Inr s \<and> map_of REGION_MAPPING s \<noteq> None \<and>
           int_item (dict (zip hdr row)) ''B19001_001E'' = Inr tot \<and>
           list_all2 (emitted (dict (zip hdr row)) s tot) (dict_items INCOME_MAPPING)
             (filter (\<lambda>r. id' r = i) recs)"
proof -
  obtain rs where rs: "process_row hdr row = Inr rs" "filter (\<lambda>r. id' r = i) recs = rs"
    using filter_id_one [OF assms] by blast
  obtain s where s: "state_fips_of hdr row = Inr s" "map_of REGION_MAPPING s \<noteq> None"
    using filter_has_id_in_table [OF assms(2)] row_has_id_state by blast
  show ?thesis using process_row_Inr [OF rs(1)] s rs(2) by auto
qed

section \<open>The order of the output\<close>

lemma index_of_Some: "index_of xs x = Some i \<Longrightarrow> i < length xs \<and> xs ! i = x"
  by (induction xs arbitrary: i) (auto split: if_splits)

lemma group_index_nth: "g \<in> set IncomeGroup \<Longrightarrow> IncomeGroup ! group_index g = g"
  using index_of_Some [of IncomeGroup g]
  by (auto simp: group_index_def index_of_None split: option.splits)

lemma mapping_group_indices:
  "map (group_index \<circ> (fst \<circ> snd)) (dict_items INCOME_MAPPING) = [0, 1, 2, 3, 4, 6, 5, 7, 8, 9]"
  by (simp add: dict_items_INCOME_MAPPING group_index_def IncomeGroup_def)

lemma sorted_same_id:
  assumes "sorted (map record_key xs)" "\<forall>r \<in> set xs. id' r = i"
  shows "sorted (map (group_index \<circ> group) xs)"
  using assms
proof (induction xs)
  case Nil
  then show ?case by simp
next
  case (Cons x xs)
  then show ?case by (auto simp: record_key_def)
qed

lemma one_row_groups:
  assumes rows: "process_rows hdr rows = Inr recs"
    and one: "filter (row_has_id hdr i) rows = [row]"
  shows "map group (filter (\<lambda>r. id' r = i) (sort_key record_key recs)) = IncomeGroup"
proof -
  let ?rs = "filter (\<lambda>r. id' r = i) recs"
  let ?xs = "sort_key record_key ?rs"
  let ?f = "group_index \<circ> group"
  obtain s tot where
    la: "list_all2 (emitted (dict (zip hdr row)) s tot) (dict_items INCOME_MAPPING) ?rs"
    using one_row_records [OF rows one] by blast
  have f: "filter (\<lambda>r. id' r = i) (sort_key record_key recs) = ?xs"
    by (rule filter_sort)
  have "map group ?rs = map (fst \<circ> snd) (dict_items INCOME_MAPPING)"
    using la by (rule emitted_groups)
  then have "map ?f ?rs = map (group_index \<circ> (fst \<circ> snd)) (dict_items INCOME_MAPPING)"
    by (simp flip: map_map)
  then have frs: "map ?f ?rs = [0, 1, 2, 3, 4, 6, 5, 7, 8, 9]"
    by (simp only: mapping_group_indices)
  have d: "distinct (map ?f ?xs)"
  proof -
    have "distinct (map ?f ?rs)" unfolding frs by simp
    then have "distinct ?rs" "inj_on ?f (set ?rs)" by (simp_all add: distinct_map)
    then show ?thesis by (simp add: distinct_map)
  qed
  have s: "sorted (map ?f ?xs)"
    by (rule sorted_same_id [where i = i]) (simp_all add: sorted_sort_key)
  have "set (map ?f ?xs) = set (map ?f ?rs)" by simp
  also have "\<dots> = set [0, 1, 2, 3, 4, 5, 6, 7, 8, 9]" unfolding frs by auto
  finally have "map ?f ?xs = [0, 1, 2, 3, 4, 5, 6, 7, 8, 9]"
    using s d by (intro sorted_distinct_set_unique) simp_all
  moreover have "\<forall>r \<in> set ?xs. group r \<in> set IncomeGroup"
    using process_rows_groups [OF rows] by simp
  then have "map group ?xs = map ((!) IncomeGroup) (map ?f ?xs)"
    by (simp add: group_index_nth)
  ultimately have "map group ?xs = map ((!) IncomeGroup) [0, 1, 2, 3, 4, 5, 6, 7, 8, 9]"
    by simp
  then show ?thesis unfolding f by (simp add: IncomeGroup_def)
qed

lemma length_one: "length xs = 1 \<Longrightarrow> \<exists>x. xs = [x]"
  by (cases xs) auto

text \<open>
  C1 (as amended). Whenever \<open>process_state_records\<close> returns, the records are sorted
  ascending by the key of \<open>by_state_income_group\<close>: the state id, then the position of
  the group in \<open>IncomeGroup\<close>. For a state id that exactly one data row describes, the
  groups of its records, in output order, are \<open>IncomeGroup\<close> as the script declares it:
  from low to high income, except that \<open>75000 to 99999\<close> comes before
  \<open>50000 to 74999\<close>.
\<close>

theorem output_sorted_by_state_and_group:
  assumes "process_state_records c = Inr out"
  shows "sorted (map record_key out) \<and>
         (\<forall>r \<in> set out. by_state_income_group IncomeGroup r = Inr (record_key r)) \<and>
         (\<forall>i. length (filter (row_has_id (header c) i) (data c)) = 1 \<longrightarrow>
              map group (filter (\<lambda>r. id' r = i) out) = IncomeGroup)"
proof -
  obtain recs where recs: "process_rows (header c) (data c) = Inr recs"
    and out: "out = sort_key record_key recs"
    using assms unfolding process_state_records_Inr by blast
  have 1: "sorted (map record_key out)" unfolding out by (rule sorted_sort_key)
  have 2: "\<forall>r \<in> set out. by_state_income_group IncomeGroup r = Inr (record_key r)"
    using process_rows_groups [OF recs] by_state_income_group_key unfolding out by simp
  have 3: "map group (filter (\<lambda>r. id' r = i) out) = IncomeGroup"
    if len: "length (filter (row_has_id (header c) i) (data c)) = 1" for i
  proof -
    obtain row where "filter (row_has_id (header c) i) (data c) = [row]"
      using length_one [OF len] by blast
    then show ?thesis unfolding out by (rule one_row_groups [OF recs])
  qed
  show ?thesis using 1 2 3 by blast
qed

lemma row_has_id_alabama: "row_has_id example_header 1 row_alabama"
  using process_row_example(1) [OF row_alabama_def region_01 py_int_01 py_int_1000]
  by (simp add: row_has_id_def region_01 py_int_01)

lemma process_state_records_alabama:
  "\<exists>out. process_state_records \<lparr>header = example_header, data = [row_alabama]\<rparr> = Inr out \<and>
         (\<forall>r \<in> set out. id' r = 1) \<and>
         map group (filter (\<lambda>r. id' r = 1) out) = IncomeGroup"
proof -
  define rs where "rs =
    map (\<lambda>(g, p). \<lparr>name = ''Alabama'', region = ''south'', id' = 1,
                    pct = \<lparr>fneg = False, fmag = p\<rparr>, total' = 1000, group = g\<rparr>)
      [(''<10000'', 3602879701896397 / 36028797018963968 :: rat),
       (''10000 to 14999'', 0), (''15000 to 24999'', 0), (''25000 to 34999'', 0),
       (''35000 to 49999'', 0), (''50000 to 74999'', 0), (''75000 to 99999'', 0),
       (''100000 to 149999'', 0), (''150000 to 199999'', 0),
       (''200000+'', 8106479329266893 / 9007199254740992)]"
  have row: "process_row example_header row_alabama = Inr rs"
    unfolding rs_def by (rule process_row_alabama)
  have rows: "process_rows example_header [row_alabama] = Inr rs"
    unfolding process_rows_single by (rule row)
  have ids: "\<forall>r \<in> set rs. id' r = 1"
    unfolding rs_def by simp
  have one: "filter (row_has_id example_header 1) [row_alabama] = [row_alabama]"
    by (simp add: row_has_id_alabama)
  have "process_state_records \<lparr>header = example_header, data = [row_alabama]\<rparr>
          = Inr (sort_key record_key rs)"
    unfolding process_state_records_Inr using rows by simp
  moreover have "\<forall>r \<in> set (sort_key record_key rs). id' r = 1"
    using ids by (simp only: set_sort)
  ultimately show ?thesis using one_row_groups [OF rows one] by blast
qed

theorem output_sorted_by_state_and_group_witness:
  "\<exists>out. process_state_records \<lparr>header = example_header, data = [row_alabama]\<rparr> = Inr out \<and>
         length (filter (row_has_id example_header 1) [row_alabama]) = 1 \<and>
         sorted (map record_key out) \<and>
         map group (filter (\<lambda>r. id' r = 1) out) = IncomeGroup"
proof -
  obtain out where
    out: "process_state_records \<lparr>header = example_header, data = [row_alabama]\<rparr> = Inr out"
    using process_state_records_alabama by blast
  have one: "length (filter (row_has_id example_header 1) [row_alabama]) = 1"
    by (simp add: row_has_id_alabama)
  show ?thesis
    using output_sorted_by_state_and_group [OF out] out one by auto
qed

text \<open>
  C1 as stated fails: for the one row of state \<open>01\<close> below, the groups come out with
  \<open>75000 to 99999\<close> before \<open>50000 to 74999\<close>, which is not the order from low to high
  income.
\<close>

theorem low_to_high_counterexample:
  "map_sum id (map group)
     (process_state_records \<lparr>header = example_header, data = [row_alabama]\<rparr>) =
   Inr [''<10000'', ''10000 to 14999'', ''15000 to 24999'', ''25000 to 34999'',
        ''35000 to 49999'', ''75000 to 99999'', ''50000 to 74999'', ''100000 to 149999'',
        ''150000 to 199999'', ''200000+''] \<and>
   [''<10000'', ''10000 to 14999'', ''15000 to 24999'', ''25000 to 34999'',
    ''35000 to 49999'', ''75000 to 99999'', ''50000 to 74999'', ''100000 to 149999'',
    ''150000 to 199999'', ''200000+''] \<noteq> brackets_low_to_high"
proof -
  obtain out where
    out: "process_state_records \<lparr>header = example_header, data = [row_alabama]\<rparr> = Inr out"
      "\<forall>r \<in> set out. id' r = 1" "map group (filter (\<lambda>r. id' r = 1) out) = IncomeGroup"
    using process_state_records_alabama by blast
  have "filter (\<lambda>r. id' r = 1) out = out" using out(2) by (simp add: filter_id_conv)
  then have "map group out = IncomeGroup" using out(3) by simp
  then show ?thesis using out(1) by (simp add: IncomeGroup_def brackets_low_to_high_def)
qed

section \<open>\<open>round(count / total, 3)\<close> and the counts, in arithmetic\<close>








section \<open>Shares of a total\<close>

lemma sum_list_insort_key:
  "sum_list (map g (insort_key k x xs)) = g x + sum_list (map g xs)"
  for g :: "'a \<Rightarrow> rat"
  by (induction xs) auto

lemma sum_list_sort_key: "sum_list (map g (sort_key k xs)) = sum_list (map g xs)"
  for g :: "'a \<Rightarrow> rat"
  by (induction xs) (auto simp: sum_list_insort_key)

lemma member_le_sum_list_int:
  "\<forall>x \<in> set xs. (0::int) \<le> x \<Longrightarrow> y \<in> set xs \<Longrightarrow> y \<le> sum_list xs"
proof (induction xs)
  case Nil
  then show ?case by simp
next
  case (Cons x xs)
  have "0 \<le> sum_list xs" using Cons.prems(1) by (intro sum_list_nonneg) auto
  then show ?case using Cons by auto
qed

lemma sum_list_quotients:
  "sum_list (map (\<lambda>x. of_int (f x) / c) xs) = (of_int (sum_list (map f xs)) / c :: rat)"
  by (induction xs) (auto simp: add_divide_distrib)

lemma sum_list_close:
  "list_all2 (\<lambda>x r. \<bar>h r - g x\<bar> \<le> (e::rat)) xs rs
     \<Longrightarrow> \<bar>sum_list (map h rs) - sum_list (map g xs)\<bar> \<le> of_nat (length rs) * e"
proof (induction rule: list_all2_induct)
  case Nil
  then show ?case by simp
next
  case (Cons x xs r rs)
  have "\<bar>(h r + sum_list (map h rs)) - (g x + sum_list (map g xs))\<bar>
          \<le> \<bar>h r - g x\<bar> + \<bar>sum_list (map h rs) - sum_list (map g xs)\<bar>"
    by linarith
  also have "\<dots> \<le> e + of_nat (length rs) * e" using Cons by linarith
  finally show ?case by (simp add: algebra_simps)
qed

lemma partition_row_pcts:
  assumes la: "list_all2 (emitted (dict (zip hdr row)) s tot) (dict_items INCOME_MAPPING) rs"
    and cp: "counts_partition_total hdr row"
    and tot: "int_item (dict (zip hdr row)) ''B19001_001E'' = Inr tot"
  shows "(\<forall>r \<in> set rs. 0 \<le> fval (pct r) \<and> fval (pct r) \<le> 1) \<and>
         \<bar>sum_list (map (\<lambda>r. fval (pct r)) rs) - 1\<bar> \<le> 1 / 100"
proof -
  let ?d = "dict (zip hdr row)"
  let ?items = "dict_items INCOME_MAPPING"
  let ?cnt = "\<lambda>(code_str, grp, sum_vars). count_of ?d code_str sum_vars"
  let ?e = "1 / 2000 + 1 / 2 ^ 52 :: rat"
  have pos: "0 < tot"
    and nn: "\<forall>c \<in> set (bracket_counts ?d). case c of Inl e \<Rightarrow> False | Inr n \<Rightarrow> 0 \<le> n"
    and sm: "sum_list (map count_value (bracket_counts ?d)) = tot"
    using cp tot by (simp_all add: counts_partition_total_def)
  have bc: "bracket_counts ?d = map ?cnt ?items" by (simp add: bracket_counts_def)
  have vals: "\<forall>v \<in> set (map count_value (bracket_counts ?d)). 0 \<le> v"
    using nn by (auto simp: count_value_def split: sum.splits)
  have item: "0 \<le> fval (pct r) \<and> fval (pct r) \<le> 1 \<and>
              \<bar>fval (pct r) - of_int (count_value (?cnt item)) / of_int tot\<bar> \<le> ?e"
    if i: "item \<in> set ?items" and em: "emitted ?d s tot item r" for item r
  proof -
    obtain code g sv where it: "item = (code, g, sv)" by (cases item)
    obtain c where c: "count_of ?d code sv = Inr c" "pct_of c tot = Inr (pct r)"
      using em it by (auto simp: emitted_def)
    have "Inr c \<in> set (bracket_counts ?d)" using i it c(1) unfolding bc by force
    then have c0: "0 \<le> c" using nn by force
    have "count_value (Inr c) \<in> set (map count_value (bracket_counts ?d))"
      unfolding set_map using \<open>Inr c \<in> set (bracket_counts ?d)\<close> by (rule imageI)
    then have "count_value (Inr c) \<le> tot"
      using member_le_sum_list_int [OF vals] sm by simp
    then have ct: "c \<le> tot" by (simp add: count_value_def)
    obtain p where p: "pct_of c tot = Inr p" "0 \<le> fval p" "fval p \<le> 1"
      "\<bar>fval p - of_int c / of_int tot\<bar> \<le> ?e"
      using pct_of_unit [OF c0 ct pos] by blast
    then have "p = pct r" using c(2) by simp
    then show ?thesis using p it c(1) by (simp add: count_value_def)
  qed
  have len: "length ?items = length rs" using la by (rule list_all2_lengthD)
  have all: "list_all2 (\<lambda>item r. 0 \<le> fval (pct r) \<and> fval (pct r) \<le> 1 \<and>
              \<bar>fval (pct r) - of_int (count_value (?cnt item)) / of_int tot\<bar> \<le> ?e) ?items rs"
    unfolding list_all2_conv_all_nth
  proof (rule conjI [OF len], intro allI impI)
    fix i assume "i < length ?items"
    then have "?items ! i \<in> set ?items" "emitted ?d s tot (?items ! i) (rs ! i)"
      using la by (simp_all add: list_all2_nthD)
    then show "0 \<le> fval (pct (rs ! i)) \<and> fval (pct (rs ! i)) \<le> 1 \<and>
              \<bar>fval (pct (rs ! i)) - of_int (count_value (?cnt (?items ! i))) / of_int tot\<bar> \<le> ?e"
      by (rule item)
  qed
  have 1: "\<forall>r \<in> set rs. 0 \<le> fval (pct r) \<and> fval (pct r) \<le> 1"
    using all by (auto simp: list_all2_conv_all_nth in_set_conv_nth)
  have "list_all2 (\<lambda>item r. \<bar>fval (pct r) - of_int (count_value (?cnt item)) / of_int tot\<bar> \<le> ?e)
          ?items rs"
    using all by (rule list_all2_mono) simp
  then have "\<bar>sum_list (map (\<lambda>r. fval (pct r)) rs)
              - sum_list (map (\<lambda>item. of_int (count_value (?cnt item)) / of_int tot) ?items)\<bar>
             \<le> of_nat (length rs) * ?e"
    by (rule sum_list_close)
  moreover have "sum_list (map (\<lambda>item. of_int (count_value (?cnt item)) / of_int tot) ?items)
                   = (1::rat)"
  proof -
    have "sum_list (map (\<lambda>item. count_value (?cnt item)) ?items) = tot"
      using sm unfolding bc by (simp add: comp_def)
    then show ?thesis using pos by (simp add: sum_list_quotients)
  qed
  moreover have "length rs = 10" using len length_dict_items by simp
  ultimately have "\<bar>sum_list (map (\<lambda>r. fval (pct r)) rs) - 1\<bar> \<le> 10 * ?e" by simp
  then have "\<bar>sum_list (map (\<lambda>r. fval (pct r)) rs) - 1\<bar> \<le> 1 / 100" by simp
  then show ?thesis using 1 by blast
qed

lemma process_rows_mem:
  "process_rows hdr rows = Inr recs \<Longrightarrow> r \<in> set recs
     \<Longrightarrow> \<exists>row \<in> set rows. \<exists>rs. process_row hdr row = Inr rs \<and> r \<in> set rs"
proof (induction rows arbitrary: recs)
  case Nil
  then show ?case by simp
next
  case (Cons row rows)
  obtain rs recs' where p: "process_row hdr row = Inr rs" "process_rows hdr rows = Inr recs'"
    "recs = rs @ recs'"
    using Cons.prems(1) unfolding process_rows_Cons_Inr by blast
  show ?case
  proof (cases "r \<in> set rs")
    case True
    then show ?thesis using p(1) by auto
  next
    case False
    then have "r \<in> set recs'" using Cons.prems(2) p(3) by simp
    then show ?thesis using Cons.IH [OF p(2)] by auto
  qed
qed

lemma record_pct_unit:
  assumes rs: "process_row hdr row = Inr rs" and r: "r \<in> set rs"
    and cp: "row_in_table hdr row \<longrightarrow> counts_partition_total hdr row"
  shows "0 \<le> fval (pct r) \<and> fval (pct r) \<le> 1"
proof -
  obtain s where s: "state_fips_of hdr row = Inr s"
    and c: "if map_of REGION_MAPPING s = None then rs = []
            else \<exists>tot. int_item (dict (zip hdr row)) ''B19001_001E'' = Inr tot \<and>
                   list_all2 (emitted (dict (zip hdr row)) s tot) (dict_items INCOME_MAPPING) rs"
    using process_row_Inr [OF rs] by blast
  have tab: "map_of REGION_MAPPING s \<noteq> None" using c r by (auto split: if_splits)
  then obtain tot where t: "int_item (dict (zip hdr row)) ''B19001_001E'' = Inr tot"
    "list_all2 (emitted (dict (zip hdr row)) s tot) (dict_items INCOME_MAPPING) rs"
    using c by auto
  have "counts_partition_total hdr row" using cp s tab by (simp add: row_in_table_def)
  then show ?thesis using partition_row_pcts [OF t(2) _ t(1)] r by blast
qed

lemma one_row_pcts:
  assumes rows: "process_rows hdr rows = Inr recs"
    and one: "filter (row_has_id hdr i) rows = [row]"
    and cp: "row_in_table hdr row \<longrightarrow> counts_partition_total hdr row"
  shows "length (filter (\<lambda>r. id' r = i) (sort_key record_key recs)) = 10 \<and>
         \<bar>sum_list (map (\<lambda>r. fval (pct r)) (filter (\<lambda>r. id' r = i) (sort_key record_key recs)))
            - 1\<bar> \<le> 1 / 100"
proof -
  let ?rs = "filter (\<lambda>r. id' r = i) recs"
  obtain s tot where s: "state_fips_of hdr row = Inr s" "map_of REGION_MAPPING s \<noteq> None"
    "int_item (dict (zip hdr row)) ''B19001_001E'' = Inr tot"
    "list_all2 (emitted (dict (zip hdr row)) s tot) (dict_items INCOME_MAPPING) ?rs"
    using one_row_records [OF rows one] by blast
  have "counts_partition_total hdr row" using cp s(1,2) by (simp add: row_in_table_def)
  then have "\<bar>sum_list (map (\<lambda>r. fval (pct r)) ?rs) - 1\<bar> \<le> 1 / 100"
    using partition_row_pcts [OF s(4) _ s(3)] by blast
  moreover have "length ?rs = 10"
    using list_all2_lengthD [OF s(4)] length_dict_items by simp
  moreover have "filter (\<lambda>r. id' r = i) (sort_key record_key recs) = sort_key record_key ?rs"
    by (rule filter_sort)
  ultimately show ?thesis by (simp add: sum_list_sort_key)
qed

text \<open>
  C3 (as amended). When in every data row with a state code in \<open>REGION_MAPPING\<close> the
  ten bracket counts are non-negative and add up to the row's total, and the total is
  positive, then of every record \<open>process_state_records\<close> returns the \<open>pct\<close> lies in
  \<open>[0, 1]\<close>, and for every state id that exactly one data row describes there are ten
  records and their \<open>pct\<close> values add up to within \<open>0.01\<close> of 1.
\<close>

theorem pct_shares_of_one:
  assumes "process_state_records c = Inr out"
    and "\<forall>row \<in> set (data c). row_in_table (header c) row
           \<longrightarrow> counts_partition_total (header c) row"
  shows "(\<forall>r \<in> set out. 0 \<le> fval (pct r) \<and> fval (pct r) \<le> 1) \<and>
         (\<forall>i. length (filter (row_has_id (header c) i) (data c)) = 1 \<longrightarrow>
              length (filter (\<lambda>r. id' r = i) out) = 10 \<and>
              \<bar>sum_list (map (\<lambda>r. fval (pct r)) (filter (\<lambda>r. id' r = i) out)) - 1\<bar>
                \<le> 1 / 100)"
proof (intro conjI ballI allI impI)
  obtain recs where recs: "process_rows (header c) (data c) = Inr recs"
    and out: "out = sort_key record_key recs"
    using assms(1) unfolding process_state_records_Inr by blast
  {
    fix r assume "r \<in> set out"
    then have "r \<in> set recs" unfolding out by simp
    then obtain row rs where "row \<in> set (data c)" "process_row (header c) row = Inr rs" "r \<in> set rs"
      using process_rows_mem [OF recs] by blast
    then have "0 \<le> fval (pct r) \<and> fval (pct r) \<le> 1"
      using assms(2) by (intro record_pct_unit) auto
    then show "0 \<le> fval (pct r)" and "fval (pct r) \<le> 1" by blast+
  }
  fix i
  assume len: "length (filter (row_has_id (header c) i) (data c)) = 1"
  obtain row where one: "filter (row_has_id (header c) i) (data c) = [row]"
    using length_one [OF len] by blast
  have "row \<in> set (data c)" using filter_has_id_in_table [OF one] by blast
  then have cp: "row_in_table (header c) row \<longrightarrow> counts_partition_total (header c) row"
    using assms(2) by blast
  show "length (filter (\<lambda>r. id' r = i) out) = 10"
    and "\<bar>sum_list (map (\<lambda>r. fval (pct r)) (filter (\<lambda>r. id' r = i) out)) - 1\<bar> \<le> 1 / 100"
    using one_row_pcts [OF recs one cp] unfolding out by blast+
qed

lemma process_row_excess:
  "process_row example_header row_excess =
     Inr (map (\<lambda>(g, p). \<lparr>name = ''Alabama'', region = ''south'', id' = 1,
                          pct = \<lparr>fneg = False, fmag = p\<rparr>, total' = 1, group = g\<rparr>)
            [(''<10000'', 2),
             (''10000 to 14999'', 0), (''15000 to 24999'', 0), (''25000 to 34999'', 0),
             (''35000 to 49999'', 0), (''50000 to 74999'', 0), (''75000 to 99999'', 0),
             (''100000 to 149999'', 0), (''150000 to 199999'', 0), (''200000+'', 0)])"
  unfolding process_row_example(2) [OF row_excess_def region_01 py_int_01 py_int_1]
  unfolding row_excess_def
  by (simp add: example_dict example_eval pct_of_2_1 pct_of_0)

lemma valid_row_excess: "valid_row example_header row_excess"
  unfolding valid_row_def mapped_fields_eq
  unfolding row_excess_def
  by (simp add: example_dict example_eval returns_def) (simp add: example_header_def)

lemma sort_excess:
  "map (fval \<circ> pct)
     (sort_key record_key
       (map (\<lambda>(g, p). \<lparr>name = ''Alabama'', region = ''south'', id' = 1,
                          pct = \<lparr>fneg = False, fmag = p\<rparr>, total' = 1, group = g\<rparr>)
            [(''<10000'', 2),
             (''10000 to 14999'', 0), (''15000 to 24999'', 0), (''25000 to 34999'', 0),
             (''35000 to 49999'', 0), (''50000 to 74999'', 0), (''75000 to 99999'', 0),
             (''100000 to 149999'', 0), (''150000 to 199999'', 0), (''200000+'', 0)]))
   = [2, 0, 0, 0, 0, 0, 0, 0, 0, 0]"
  by (simp add: record_key_def group_index_def IncomeGroup_def fval_def)

text \<open>
  C3 as stated fails: the response below is valid (its row is as long as the header,
  every mapped field is an integer, the total is not zero), and for state \<open>01\<close> the
  first \<open>pct\<close> is \<open>2.0\<close> and the ten add up to 2, because the first count is 2 and the
  total is 1. Nothing in the script compares the counts with the total.
\<close>

theorem pct_shares_counterexample:
  "valid_response \<lparr>header = example_header, data = [row_excess]\<rparr> \<and>
   map_sum id (map (fval \<circ> pct))
     (process_state_records \<lparr>header = example_header, data = [row_excess]\<rparr>)
     = Inr [2, 0, 0, 0, 0, 0, 0, 0, 0, 0]"
proof -
  have "process_rows example_header [row_excess] = process_row example_header row_excess"
    by (rule process_rows_single)
  then have "process_state_records \<lparr>header = example_header, data = [row_excess]\<rparr>
          = Inr (sort_key record_key
       (map (\<lambda>(g, p). \<lparr>name = ''Alabama'', region = ''south'', id' = 1,
                          pct = \<lparr>fneg = False, fmag = p\<rparr>, total' = 1, group = g\<rparr>)
            [(''<10000'', 2),
             (''10000 to 14999'', 0), (''15000 to 24999'', 0), (''25000 to 34999'', 0),
             (''35000 to 49999'', 0), (''50000 to 74999'', 0), (''75000 to 99999'', 0),
             (''100000 to 149999'', 0), (''150000 to 199999'', 0), (''200000+'', 0)]))"
    unfolding process_state_records_Inr process_row_excess by simp
  then show ?thesis
    by (simp only: sort_excess map_sum.simps id_apply valid_response_def)
       (simp add: valid_row_excess)
qed

lemma counts_partition_alabama: "counts_partition_total example_header row_alabama"
  unfolding counts_partition_total_def bracket_counts_def
  unfolding row_alabama_def
  by (simp add: example_dict example_eval count_value_def)

theorem pct_shares_of_one_witness:
  "\<exists>out. process_state_records \<lparr>header = example_header, data = [row_alabama]\<rparr> = Inr out \<and>
         row_in_table example_header row_alabama \<and>
         counts_partition_total example_header row_alabama \<and>
         length (filter (row_has_id example_header 1) [row_alabama]) = 1 \<and>
         length (filter (\<lambda>r. id' r = 1) out) = 10 \<and>
         \<bar>sum_list (map (\<lambda>r. fval (pct r)) (filter (\<lambda>r. id' r = 1) out)) - 1\<bar> \<le> 1 / 100"
proof -
  obtain out where
    out: "process_state_records \<lparr>header = example_header, data = [row_alabama]\<rparr> = Inr out"
    using process_state_records_alabama by blast
  have one: "length (filter (row_has_id example_header 1) [row_alabama]) = 1"
    by (simp add: row_has_id_alabama)
  have cp: "\<forall>row \<in> set (data \<lparr>header = example_header, data = [row_alabama]\<rparr>).
              row_in_table (header \<lparr>header = example_header, data = [row_alabama]\<rparr>) row
              \<longrightarrow> counts_partition_total
                    (header \<lparr>header = example_header, data = [row_alabama]\<rparr>) row"
    by (simp add: counts_partition_alabama)
  show ?thesis
    using pct_shares_of_one [OF out cp] out one counts_partition_alabama row_in_table_alabama
    by auto
qed

section \<open>The scenario of state 01\<close>

lemma py_int_huger_count: "py_int huger_count = Some (2 * 10 ^ 311)"
proof -
  have d: "is_digit (CHR ''2'')" "is_digit (CHR ''0'')" by (simp_all add: is_digit_def digit_val_def)
  have "py_int huger_count = Some (digits_value huger_count)"
    using d by (intro py_int_digits) (auto simp: huger_count_def int_max_str_digits_def)
  moreover have "digits_value huger_count = 2 * 10 ^ 311"
    using d by (simp add: digits_value_def huger_count_def foldl_zeros) (simp add: digit_val_def)
  ultimately show ?thesis by simp
qed

lemma pct_of_huger: "pct_of (2 * 10 ^ 311) 1000 = Inl OverflowError"
  by (rule pct_of_overflow) (simp_all add: overflow_threshold_def)

lemma process_row_scenario_overflow:
  "process_row example_header row_scenario_overflow = Inl OverflowError"
  unfolding process_row_example(2) [OF row_scenario_overflow_def region_01 py_int_01 py_int_1000]
  unfolding row_scenario_overflow_def
  by (simp add: example_dict example_eval py_int_huger_count pct_of_100_1000
        pct_of_huger [simplified])

lemma scenario_overflow_fields:
  "\<forall>f \<in> set mapped_fields.
     returns (int_item (dict (zip example_header row_scenario_overflow)) f)"
  unfolding mapped_fields_eq
  unfolding row_scenario_overflow_def
  by (simp add: example_dict example_eval returns_def py_int_huger_count)

text \<open>
  C5 (as amended). A row that the header maps to state \<open>01\<close>, \<open>B19001_001E = "1000"\<close>
  and \<open>B19001_002E = "100"\<close>, whose other mapped fields convert with \<open>int\<close>, and in
  which no quotient \<open>count / total\<close> reaches the overflow threshold of a double: for the
  response with that one row \<open>process_state_records\<close> returns ten records, and among
  them the record with group \<open><10000\<close>, the row's name, region \<open>south\<close>, id 1, total
  1000 and \<open>pct\<close> the double written \<open>0.1\<close> (the double nearest to 1/10, which differs
  from it by less than \<open>10\<^sup>-\<^sup>1\<^sup>7\<close>).
\<close>

theorem scenario_state_01:
  assumes len: "length row = length hdr"
    and st: "dict (zip hdr row) ''state'' = Some ''01''"
    and nm: "dict (zip hdr row) ''NAME'' = Some nm"
    and tot: "dict (zip hdr row) ''B19001_001E'' = Some ''1000''"
    and cnt: "dict (zip hdr row) ''B19001_002E'' = Some ''100''"
    and fields: "\<forall>f \<in> set mapped_fields. returns (int_item (dict (zip hdr row)) f)"
    and range: "quotients_in_range hdr row"
  shows "\<exists>recs. process_state_records \<lparr>header = hdr, data = [row]\<rparr> = Inr recs \<and>
           length recs = 10 \<and>
           \<lparr>name = nm, region = ''south'', id' = 1,
            pct = \<lparr>fneg = False, fmag = 3602879701896397 / 36028797018963968\<rparr>,
            total' = 1000, group = ''<10000''\<rparr> \<in> set recs \<and>
           nearest_double (1 / 10) = Some (3602879701896397 / 36028797018963968) \<and>
           \<bar>3602879701896397 / 36028797018963968 - 1 / 10 :: rat\<bar> \<le> 1 / 10 ^ 17"
proof -
  let ?d = "dict (zip hdr row)"
  let ?R = "\<lparr>name = nm, region = ''south'', id' = 1,
             pct = \<lparr>fneg = False, fmag = 3602879701896397 / 36028797018963968\<rparr>,
             total' = 1000, group = ''<10000''\<rparr>"
  have sf: "state_fips_of hdr row = Inr ''01''" using len st by (simp add: state_fips_of_Inr)
  have t: "int_item ?d ''B19001_001E'' = Inr 1000"
    using tot by (simp add: int_item_def getitem_def py_int_1000)
  have "int_item ?d ''B19001_001E'' \<noteq> Inr 0" using t by simp
  then have "valid_row hdr row" using fields len by (simp add: valid_row_def)
  then have "\<exists>recs. process_rows hdr [row] = Inr recs \<and>
           length recs = 10 * length (filter (row_in_table hdr) [row])"
    using range dict_zip_key [OF st] dict_zip_key [OF nm] by (intro valid_rows_return) auto
  then obtain rs where rs: "process_row hdr row = Inr rs"
    unfolding process_rows_single by blast
  have la: "list_all2 (emitted ?d ''01'' 1000) (dict_items INCOME_MAPPING) rs"
    using process_row_Inr [OF rs] sf t by (auto simp: region_01)
  then have l: "length rs = 10" using list_all2_lengthD [OF la] length_dict_items by simp
  obtain r rest where r: "rs = r # rest"
    "emitted ?d ''01'' 1000 (''B19001_002E'', ''<10000'', None) r"
    using la unfolding dict_items_INCOME_MAPPING by (auto simp: list_all2_Cons1)
  have "count_of ?d ''B19001_002E'' None = Inr 100"
    using cnt by (simp add: count_of_def int_item_def getitem_def py_int_100)
  then have "r = ?R"
    using r(2) nm by (auto simp: emitted_def region_01 py_int_01 pct_of_100_1000)
  then have mem: "?R \<in> set (sort_key record_key rs)" using r(1) by (simp only: set_sort) simp
  have "process_state_records \<lparr>header = hdr, data = [row]\<rparr> = Inr (sort_key record_key rs)"
    unfolding process_state_records_Inr using rs by (simp add: process_rows_single del: process_rows.simps)
  moreover have "\<bar>3602879701896397 / 36028797018963968 - 1 / 10 :: rat\<bar> \<le> 1 / 10 ^ 17"
    by simp
  ultimately show ?thesis using mem l nearest_double_tenth by simp
qed

theorem scenario_state_01_witness:
  "length row_alabama = length example_header \<and>
   dict (zip example_header row_alabama) ''state'' = Some ''01'' \<and>
   dict (zip example_header row_alabama) ''NAME'' = Some ''Alabama'' \<and>
   dict (zip example_header row_alabama) ''B19001_001E'' = Some ''1000'' \<and>
   dict (zip example_header row_alabama) ''B19001_002E'' = Some ''100'' \<and>
   quotients_in_range example_header row_alabama \<and>
   (\<exists>recs. process_state_records \<lparr>header = example_header, data = [row_alabama]\<rparr> = Inr recs \<and>
      length recs = 10 \<and>
      \<lparr>name = ''Alabama'', region = ''south'', id' = 1,
       pct = \<lparr>fneg = False, fmag = 3602879701896397 / 36028797018963968\<rparr>,
       total' = 1000, group = ''<10000''\<rparr> \<in> set recs)"
proof -
  let ?d = "dict (zip example_header row_alabama)"
  have len: "length row_alabama = length example_header"
    by (simp add: row_alabama_def example_header_def)
  have d: "?d ''state'' = Some ''01''" "?d ''NAME'' = Some ''Alabama''"
    "?d ''B19001_001E'' = Some ''1000''" "?d ''B19001_002E'' = Some ''100''"
    unfolding row_alabama_def by (simp_all add: example_dict)
  have f: "\<forall>f \<in> set mapped_fields. returns (int_item ?d f)"
    using valid_row_alabama by (simp add: valid_row_def)
  show ?thesis
    using scenario_state_01 [OF len d f quotients_in_range_alabama] len d
      quotients_in_range_alabama
    by blast
qed

text \<open>
  C5 as stated fails: the row below meets the scenario (state \<open>01\<close>, total 1000, first
  count 100, every other mapped field an integer), and \<open>process_state_records\<close> raises
  \<open>OverflowError\<close> and emits no record, because the second count is \<open>2 \<cdot> 10\<^sup>3\<^sup>1\<^sup>1\<close>.
\<close>

theorem scenario_overflow_counterexample:
  "length row_scenario_overflow = length example_header \<and>
   dict (zip example_header row_scenario_overflow) ''state'' = Some ''01'' \<and>
   dict (zip example_header row_scenario_overflow) ''NAME'' = Some ''Alabama'' \<and>
   dict (zip example_header row_scenario_overflow) ''B19001_001E'' = Some ''1000'' \<and>
   dict (zip example_header row_scenario_overflow) ''B19001_002E'' = Some ''100'' \<and>
   list_all (\<lambda>f. returns (int_item (dict (zip example_header row_scenario_overflow)) f))
     mapped_fields \<and>
   process_state_records \<lparr>header = example_header, data = [row_scenario_overflow]\<rparr>
     = Inl OverflowError"
proof -
  let ?d = "dict (zip example_header row_scenario_overflow)"
  have len: "length row_scenario_overflow = length example_header"
    by (simp add: row_scenario_overflow_def example_header_def)
  have d: "?d ''state'' = Some ''01''" "?d ''NAME'' = Some ''Alabama''"
    "?d ''B19001_001E'' = Some ''1000''" "?d ''B19001_002E'' = Some ''100''"
    unfolding row_scenario_overflow_def by (simp_all add: example_dict)
  have "process_state_records \<lparr>header = example_header, data = [row_scenario_overflow]\<rparr>
          = Inl OverflowError"
    by (simp add: process_state_records_def process_row_scenario_overflow)
  then show ?thesis
    using len d scenario_overflow_fields by (simp add: list_all_iff)
qed

section \<open>A total of zero, and the \<open>pct\<close> otherwise\<close>






















section \<open>Fetching the response\<close>

lemma get_census_data_Inr_iff:
  "get_census_data http = Inr c \<longleftrightarrow>
     (\<exists>status_code x xs. http = Response status_code (Some (JArr (x # xs))) \<and>
        (status_code < 400 \<or> 600 \<le> status_code) \<and> xs \<noteq> [] \<and>
        c = \<lparr>header = x, data = xs\<rparr>) \<or>
     (\<exists>status_code ch s. http = Response status_code (Some (JStr (ch # s))) \<and>
        (status_code < 400 \<or> 600 \<le> status_code) \<and> s \<noteq> [] \<and>
        c = \<lparr>header = [[ch]], data = map (\<lambda>x. [[x]]) s\<rparr>)"
proof (cases http)
  case NoResponse
  then show ?thesis by (simp add: get_census_data_def)
next
  case (Response st body)
  show ?thesis
  proof (cases body)
    case None
    then show ?thesis using Response
      by (simp add: get_census_data_def raise_for_status_def)
  next
    case (Some j)
    show ?thesis
    proof (cases j)
      case (JArr ys)
      then show ?thesis using Response Some
        by (cases ys; cases "tl ys")
           (auto simp add: get_census_data_def raise_for_status_def not_less)
    next
      case (JStr ys)
      then show ?thesis using Response Some
        by (cases ys; cases "tl ys")
           (auto simp add: get_census_data_def raise_for_status_def not_less)
    qed (use Response Some in
          \<open>auto simp add: get_census_data_def raise_for_status_def\<close>)
  qed
qed

lemma get_census_data_Inl_iff:
  "(\<exists>e. get_census_data http = Inl e) \<longleftrightarrow>
     http = NoResponse \<or>
     (\<exists>status_code body. http = Response status_code body \<and>
        (400 \<le> status_code \<and> status_code < 600 \<or> body = None \<or>
         (\<exists>json. body = Some json \<and>
            (case json of JArr xs \<Rightarrow> length xs < 2 | JStr s \<Rightarrow> length s < 2 | _ \<Rightarrow> True))))"
proof (cases http)
  case NoResponse
  then show ?thesis by (simp add: get_census_data_def)
next
  case (Response st body)
  show ?thesis
  proof (cases body)
    case None
    then show ?thesis using Response
      by (simp add: get_census_data_def raise_for_status_def)
  next
    case (Some j)
    show ?thesis
    proof (cases j)
      case (JArr ys)
      then show ?thesis using Response Some
        by (cases ys; cases "tl ys")
           (auto simp add: get_census_data_def raise_for_status_def not_less)
    next
      case (JStr ys)
      then show ?thesis using Response Some
        by (cases ys; cases "tl ys")
           (auto simp add: get_census_data_def raise_for_status_def not_less)
    qed (use Response Some in
          \<open>auto simp add: get_census_data_def raise_for_status_def\<close>)
  qed
qed

text \<open>
  C9 (as amended). \<open>get_census_data\<close> fails exactly when the call gets no response, the
  status code is one of 400 to 599 (the codes \<open>raise_for_status\<close> raises for), the body
  is not JSON, or the parsed body is not an array or a string of at least two entries.
  It returns exactly in the two remaining cases: for an array of at least two entries,
  whatever other status code came with it, the first entry is the header and all the
  remaining entries, in their order, are the data rows; for a string of at least two
  characters the header is its first character and the rows are the remaining ones.
\<close>

theorem fetch_fails_exactly_when:
  "((\<exists>e. get_census_data http = Inl e) \<longleftrightarrow>
      http = NoResponse \<or>
      (\<exists>status_code body. http = Response status_code body \<and>
         (400 \<le> status_code \<and> status_code < 600 \<or> body = None \<or>
          (\<exists>json. body = Some json \<and>
             (case json of JArr xs \<Rightarrow> length xs < 2 | JStr s \<Rightarrow> length s < 2
              | _ \<Rightarrow> True))))) \<and>
   (get_census_data http = Inr c \<longleftrightarrow>
      (\<exists>status_code x xs. http = Response status_code (Some (JArr (x # xs))) \<and>
         (status_code < 400 \<or> 600 \<le> status_code) \<and> xs \<noteq> [] \<and>
         c = \<lparr>header = x, data = xs\<rparr>) \<or>
      (\<exists>status_code ch s. http = Response status_code (Some (JStr (ch # s))) \<and>
         (status_code < 400 \<or> 600 \<le> status_code) \<and> s \<noteq> [] \<and>
         c = \<lparr>header = [[ch]], data = map (\<lambda>x. [[x]]) s\<rparr>))"
  using get_census_data_Inl_iff [of http] get_census_data_Inr_iff [of http c]
  by (rule conjI)

text \<open>
  The response of the scenario, with status 200, is returned with its header and its
  row; the same body with status 404 is an \<open>HTTPError\<close>, and a body of the header alone
  is the \<open>ValueError\<close> of the script.
\<close>

theorem fetch_fails_exactly_when_witness:
  "get_census_data (Response 200 (Some (JArr [example_header, row_alabama])))
     = Inr \<lparr>header = example_header, data = [row_alabama]\<rparr> \<and>
   (\<exists>e. get_census_data (Response 404 (Some (JArr [example_header, row_alabama]))) = Inl e) \<and>
   (\<exists>e. get_census_data (Response 200 (Some (JArr [example_header]))) = Inl e)"
  using fetch_fails_exactly_when
          [of "Response 200 (Some (JArr [example_header, row_alabama]))"
              "\<lparr>header = example_header, data = [row_alabama]\<rparr>"]
        fetch_fails_exactly_when
          [of "Response 404 (Some (JArr [example_header, row_alabama]))"]
        fetch_fails_exactly_when [of "Response 200 (Some (JArr [example_header]))"]
  by simp

text \<open>
  C9 as stated fails: 300 is not a 2xx status, and the response below is returned, not
  refused. \<open>raise_for_status\<close> raises for 400 to 599 only, and the script looks at the
  status in no other way.
\<close>

theorem fetch_non_2xx_counterexample:
  "get_census_data (Response 300 (Some (JArr [example_header, row_alabama])))
     = Inr \<lparr>header = example_header, data = [row_alabama]\<rparr>"
  by (simp add: get_census_data_def raise_for_status_def)

end
